theory Spec2Isabelle
  imports Main
begin

section \<open>Coordinates of the nonblocking backend\<close>

text \<open>
  A shallow embedding of \<^verbatim>\<open>grb::internal::Coordinates< nonblocking >\<close>
  (\<^verbatim>\<open>include/graphblas/nonblocking/coordinates.hpp\<close>).

  The class owns no memory: its fields point into two blocks supplied by the caller, an
  array of \<^verbatim>\<open>bool\<close> and an array of \<^verbatim>\<open>StackType\<close> that holds
  the stack and, behind it, the buffer of the local coordinates. A tile's view aliases both
  blocks. The embedding therefore keeps an explicit store with the two blocks, and a
  pointer is an element offset into its block (\<open>None\<close> is \<^verbatim>\<open>nullptr\<close>).

  Undefined behaviour of the source is a value of the model: a dereference of
  \<^verbatim>\<open>nullptr\<close>, an access outside the block, an out-of-range index of a
  \<^verbatim>\<open>std::vector\<close>, a division by zero and a failed \<^verbatim>\<open>assert\<close>
  are results \<open>Inl\<close>. Sizes and indices are natural numbers. The widths of
  \<^verbatim>\<open>size_t\<close> and \<^verbatim>\<open>config::VectorIndexType\<close> are declared elsewhere and
  are parameters: the sums of \<^verbatim>\<open>prefixSumComputation\<close> are reduced modulo two to
  the width of the type that holds them, and where an unsigned subtraction of the source
  would wrap around the model stops with \<open>Wrapped\<close>.
\<close>

subsection \<open>Results, store and pointers\<close>

datatype fault = AssertFailed | NullPointer | OutOfBounds | DivByZero | Wrapped

type_synonym 'a res = "fault + 'a"

definition bnd :: "'a res \<Rightarrow> ('a \<Rightarrow> 'b res) \<Rightarrow> 'b res" where
  "bnd r f = (case r of Inl e \<Rightarrow> Inl e | Inr x \<Rightarrow> f x)"

type_synonym ptr = "nat option"

record memory =
  arr_mem :: "bool list"
  buf_mem :: "nat list"

definition rd_arr :: "memory \<Rightarrow> ptr \<Rightarrow> nat \<Rightarrow> bool res" where
  "rd_arr m p i = (case p of None \<Rightarrow> Inl NullPointer
     | Some a \<Rightarrow> if a + i < length (arr_mem m) then Inr (arr_mem m ! (a + i)) else Inl OutOfBounds)"

definition wr_arr :: "memory \<Rightarrow> ptr \<Rightarrow> nat \<Rightarrow> bool \<Rightarrow> memory res" where
  "wr_arr m p i v = (case p of None \<Rightarrow> Inl NullPointer
     | Some a \<Rightarrow> if a + i < length (arr_mem m)
         then Inr (m\<lparr>arr_mem := (arr_mem m)[a + i := v]\<rparr>) else Inl OutOfBounds)"

definition rd_buf :: "memory \<Rightarrow> ptr \<Rightarrow> nat \<Rightarrow> nat res" where
  "rd_buf m p i = (case p of None \<Rightarrow> Inl NullPointer
     | Some a \<Rightarrow> if a + i < length (buf_mem m) then Inr (buf_mem m ! (a + i)) else Inl OutOfBounds)"

definition wr_buf :: "memory \<Rightarrow> ptr \<Rightarrow> nat \<Rightarrow> nat \<Rightarrow> memory res" where
  "wr_buf m p i v = (case p of None \<Rightarrow> Inl NullPointer
     | Some a \<Rightarrow> if a + i < length (buf_mem m)
         then Inr (m\<lparr>buf_mem := (buf_mem m)[a + i := v]\<rparr>) else Inl OutOfBounds)"

text \<open>\<^verbatim>\<open>p + k\<close>: forming the pointer never reads; on \<^verbatim>\<open>nullptr\<close> only
  \<open>k = 0\<close> is defined.\<close>

definition ptr_add :: "ptr \<Rightarrow> nat \<Rightarrow> ptr res" where
  "ptr_add p k = (case p of None \<Rightarrow> (if k = 0 then Inr None else Inl NullPointer)
     | Some a \<Rightarrow> Inr (Some (a + k)))"

text \<open>\<^verbatim>\<open>p - 1\<close>, as in \<^verbatim>\<open>_stack - 1\<close>.\<close>

definition ptr_pred :: "ptr \<Rightarrow> ptr res" where
  "ptr_pred p = (case p of None \<Rightarrow> Inl NullPointer
     | Some a \<Rightarrow> if a = 0 then Inl OutOfBounds else Inr (Some (a - 1)))"

definition usub :: "nat \<Rightarrow> nat \<Rightarrow> nat res" where
  "usub a b = (if b \<le> a then Inr (a - b) else Inl Wrapped)"

definition udiv :: "nat \<Rightarrow> nat \<Rightarrow> nat res" where
  "udiv a b = (if b = 0 then Inl DivByZero else Inr (a div b))"

text \<open>\<^verbatim>\<open>v[ i ]\<close> on a \<^verbatim>\<open>std::vector\<close> or a local array, read and written,
  and \<^verbatim>\<open>std::vector::resize\<close>, which fills with value-initialised elements.\<close>

definition vec_at :: "'a list \<Rightarrow> nat \<Rightarrow> 'a res" where
  "vec_at xs i = (if i < length xs then Inr (xs ! i) else Inl OutOfBounds)"

definition vec_upd :: "'a list \<Rightarrow> nat \<Rightarrow> 'a \<Rightarrow> 'a list res" where
  "vec_upd xs i v = (if i < length xs then Inr (xs[i := v]) else Inl OutOfBounds)"

definition resize :: "'a list \<Rightarrow> nat \<Rightarrow> 'a \<Rightarrow> 'a list" where
  "resize xs k d = take k xs @ replicate (k - length xs) d"

text \<open>A \<^verbatim>\<open>for( size_t i = a; i < b; ++i )\<close> whose body leaves the bounds alone runs
  the body on \<open>[a..<b]\<close>, and stops at the first fault.\<close>

fun for_loop :: "nat list \<Rightarrow> (nat \<Rightarrow> 's \<Rightarrow> 's res) \<Rightarrow> 's \<Rightarrow> 's res" where
  "for_loop [] body s = Inr s"
| "for_loop (i # is) body s = bnd (body i s) (for_loop is body)"

subsection \<open>What the class takes from other headers\<close>

text \<open>
  Modelled from the spec: \<^verbatim>\<open>AnalyticModel\<close> (\<^verbatim>\<open>nonblocking/analytic_model.hpp\<close>)
  is the tiling model, a value with the derived thread count, tile size and tile count,
  read through \<^verbatim>\<open>getNumThreads\<close>, \<^verbatim>\<open>getTileSize\<close> and
  \<^verbatim>\<open>getNumTiles\<close>.
\<close>

record analytic_model =
  getNumThreads :: nat
  getTileSize :: nat
  getNumTiles :: nat

text \<open>
  The build flags and the functions of \<^verbatim>\<open>config\<close> and
  \<^verbatim>\<open>internal::NONBLOCKING\<close> that the class calls are parameters: the default
  constructor and the constructor of the analytic model, \<^verbatim>\<open>config::OMP::localRange\<close> (start, end, block size, thread,
  number of threads; it returns the local start and end), the size of the team of an
  \<^verbatim>\<open>omp parallel\<close> region, the buffer sizes, and the widths in bits of
  \<^verbatim>\<open>size_t\<close> and of \<^verbatim>\<open>config::VectorIndexType\<close>.
\<close>

record env =
  NDEBUG :: bool
  DEBUG :: bool
  vectorBufferSize :: "nat \<Rightarrow> nat"
  maxBufferTiles :: "nat \<Rightarrow> nat"
  minLoopSize :: nat
  CACHE_LINE_SIZE :: nat
  omp_num_threads :: nat
  sizeof_StackType :: nat
  size_bits :: nat
  index_bits :: nat
  AnalyticModel0 :: analytic_model
  AnalyticModel :: "nat \<Rightarrow> nat \<Rightarrow> nat \<Rightarrow> analytic_model"
  localRange :: "nat \<Rightarrow> nat \<Rightarrow> nat \<Rightarrow> nat \<Rightarrow> nat \<Rightarrow> nat \<times> nat"

definition assert_c :: "env \<Rightarrow> bool \<Rightarrow> unit res" where
  "assert_c e b = (if NDEBUG e \<or> b then Inr () else Inl AssertFailed)"




subsection \<open>The class\<close>

record coordinates =
  c_assigned :: ptr
  c_stack :: ptr
  c_buffer :: ptr
  c_n :: nat
  c_cap :: nat
  c_buf :: nat
  local_buffer :: "ptr list"
  local_new_nnzs :: ptr
  pref_sum :: ptr
  analytic_model :: analytic_model

text \<open>The default constructor; the two pointers of the local coordinates are not
  initialised by it, and the analytic model is default-constructed by its own class.\<close>

definition Coordinates :: "analytic_model \<Rightarrow> coordinates" where
  "Coordinates am0 = \<lparr>c_assigned = None, c_stack = None, c_buffer = None,
     c_n = 0, c_cap = 0, c_buf = 0,
     local_buffer = [], local_new_nnzs = None, pref_sum = None, analytic_model = am0\<rparr>"

text \<open>
  \<^verbatim>\<open>set\<close>. The caller's buffer is addressed in elements of
  \<^verbatim>\<open>StackType\<close>, so it is aligned and the adjustment of \<^verbatim>\<open>buf_raw\<close>
  adds nothing. In the parallel branch every thread \<open>t\<close> of the team clears its
  \<^verbatim>\<open>localRange\<close>; the threads write disjoint flags and run here one after the other.
\<close>

definition clear_flags :: "ptr \<Rightarrow> nat \<Rightarrow> nat \<Rightarrow> memory \<Rightarrow> memory res" where
  "clear_flags arr start end m = for_loop [start..<end] (\<lambda>i m1. wr_arr m1 arr i False) m"

definition clear_team :: "env \<Rightarrow> ptr \<Rightarrow> nat \<Rightarrow> memory \<Rightarrow> memory res" where
  "clear_team e arr dim m =
    for_loop [0..<omp_num_threads e] (\<lambda>t m1.
      case localRange e 0 dim (CACHE_LINE_SIZE e) t (omp_num_threads e) of
        (start, end) \<Rightarrow> clear_flags arr start end m1) m"

definition set_c :: "env \<Rightarrow> coordinates \<Rightarrow> memory \<Rightarrow> ptr \<Rightarrow> bool \<Rightarrow> ptr \<Rightarrow> nat \<Rightarrow> bool
    \<Rightarrow> (coordinates \<times> memory) res" where
  "set_c e c m arr arr_initialized buf dim parallel =
    (if arr = None \<or> buf = None then
       bnd (assert_c e (arr = None)) (\<lambda>_.
       bnd (assert_c e (buf = None)) (\<lambda>_.
       bnd (assert_c e (dim = 0)) (\<lambda>_.
       Inr (c\<lparr>c_assigned := None, c_stack := None, c_buffer := None,
              c_n := 0, c_cap := 0, c_buf := 0\<rparr>, m))))
     else
       bnd (ptr_add buf dim) (\<lambda>b.
       let c1 = c\<lparr>c_assigned := arr, c_stack := buf, c_buffer := b,
                   c_n := 0, c_cap := dim, c_buf := vectorBufferSize e dim\<rparr> in
       if dim > 0 \<and> \<not> arr_initialized then
         bnd (if parallel then clear_team e arr dim m else clear_flags arr 0 dim m)
           (\<lambda>m'. Inr (c1, m'))
       else Inr (c1, m)))"


text \<open>\<^verbatim>\<open>local_assignAll< maybe_invalid >\<close>.\<close>

definition local_assignAll :: "env \<Rightarrow> bool \<Rightarrow> coordinates \<Rightarrow> memory \<Rightarrow> (coordinates \<times> memory) res" where
  "local_assignAll e maybe_invalid c m =
    bnd (if maybe_invalid \<or> c_n c \<noteq> c_cap c then
           (if c_assigned c \<noteq> None then
              bnd (assert_c e (c_stack c \<noteq> None)) (\<lambda>_.
              bnd (assert_c e (maybe_invalid \<or> c_n c < c_cap c)) (\<lambda>_.
              bnd (assert_c e (\<not> maybe_invalid \<or> c_n c \<le> c_cap c)) (\<lambda>_.
              let c1 = c\<lparr>c_n := c_cap c\<rparr> in
              bnd (for_loop [0..<c_n c1] (\<lambda>i m1.
                     bnd (wr_arr m1 (c_assigned c1) i True) (\<lambda>m2.
                     wr_buf m2 (c_stack c1) i i)) m) (\<lambda>m'.
              Inr (c1, m')))))
            else Inr (c, m))
         else Inr (c, m)) (\<lambda>(c', m').
    bnd (ptr_pred (c_stack c')) (\<lambda>local_nnzs.
    bnd (wr_buf m' local_nnzs 0 0) (\<lambda>m''.
    Inr (c', m''))))"

text \<open>\<^verbatim>\<open>clear\<close>. The \<^verbatim>\<open>omp parallel for\<close> loops write one flag per
  iteration, all with \<^verbatim>\<open>false\<close>; they run here in index order. The walk over the
  stack is the same loop below and above \<^verbatim>\<open>minLoopSize\<close>.\<close>

definition clear_stack :: "coordinates \<Rightarrow> memory \<Rightarrow> memory res" where
  "clear_stack c m =
    for_loop [0..<c_n c] (\<lambda>k m1.
      bnd (rd_buf m1 (c_stack c) k) (\<lambda>j. wr_arr m1 (c_assigned c) j False)) m"

definition clear :: "env \<Rightarrow> coordinates \<Rightarrow> memory \<Rightarrow> (coordinates \<times> memory) res" where
  "clear e c m =
    bnd (if c_n c = c_cap c then
           bnd (assert_c e (\<not> (c_assigned c = None \<and> c_cap c > 0))) (\<lambda>_.
           clear_flags (c_assigned c) 0 (c_cap c) m)
         else if c_n c < minLoopSize e then clear_stack c m
         else clear_stack c m)
      (\<lambda>m'. Inr (c\<lparr>c_n := 0\<rparr>, m'))"

definition isEmpty :: "coordinates \<Rightarrow> bool" where
  "isEmpty c = (if c_n c = 0 then True else False)"

definition isDense :: "coordinates \<Rightarrow> bool" where
  "isDense c = (c_n c = c_cap c)"

definition size_c :: "coordinates \<Rightarrow> nat" where
  "size_c c = c_cap c"

definition assigned :: "env \<Rightarrow> coordinates \<Rightarrow> memory \<Rightarrow> nat \<Rightarrow> bool res" where
  "assigned e c m i =
    bnd (assert_c e (i < c_cap c)) (\<lambda>_.
    if c_n c = c_cap c then Inr True else rd_arr m (c_assigned c) i)"

definition nonzeroes :: "env \<Rightarrow> coordinates \<Rightarrow> nat res" where
  "nonzeroes e c = bnd (assert_c e (c_n c \<le> c_cap c)) (\<lambda>_. Inr (c_n c))"

definition index :: "env \<Rightarrow> coordinates \<Rightarrow> memory \<Rightarrow> nat \<Rightarrow> nat res" where
  "index e c m k =
    bnd (assert_c e (k < c_n c)) (\<lambda>_.
    if isDense c then Inr k else rd_buf m (c_stack c) k)"


subsection \<open>Local coordinates\<close>

definition localCoordinatesInit :: "env \<Rightarrow> coordinates \<Rightarrow> analytic_model \<Rightarrow> coordinates res" where
  "localCoordinatesInit e c am =
    (let c1 = c\<lparr>analytic_model := am\<rparr>;
         nthreads = getNumThreads (analytic_model c1);
         tile_size = getTileSize (analytic_model c1);
         num_tiles = getNumTiles (analytic_model c1) in
     bnd (assert_c e (num_tiles > 0)) (\<lambda>_.
     bnd (assert_c e (num_tiles \<le> maxBufferTiles e (c_cap c1))) (\<lambda>_.
     bnd (assert_c e (c_buf c1 \<ge> 4 * num_tiles)) (\<lambda>_.
     let c2 = c1\<lparr>local_buffer := resize (local_buffer c1) (getNumTiles (analytic_model c1)) None\<rparr> in
     bnd (for_loop [0..<num_tiles] (\<lambda>tile_id c3.
            bnd (ptr_add (c_buffer c3) (tile_id * (tile_size + 1))) (\<lambda>p.
            bnd (vec_upd (local_buffer c3) tile_id p) (\<lambda>lb.
            Inr (c3\<lparr>local_buffer := lb\<rparr>)))) c2) (\<lambda>c4.
     bnd (ptr_add (c_buffer c4) (num_tiles * (tile_size + 1))) (\<lambda>p1.
     bnd (ptr_add (c_buffer c4) (num_tiles * (tile_size + 2))) (\<lambda>p2.
     Inr (c4\<lparr>local_new_nnzs := p1, pref_sum := p2\<rparr>))))))))"

text \<open>\<^verbatim>\<open>local_stack[ (*local_nnzs)++ ] = v\<close>.\<close>

definition push_local :: "memory \<Rightarrow> ptr \<Rightarrow> ptr \<Rightarrow> nat \<Rightarrow> memory res" where
  "push_local m local_nnzs local_stack v =
    bnd (rd_buf m local_nnzs 0) (\<lambda>k.
    bnd (wr_buf m local_nnzs 0 (k + 1)) (\<lambda>m1.
    wr_buf m1 local_stack k v))"

text \<open>The two scans of \<^verbatim>\<open>asyncSubsetInit\<close>: the tile's range against
  \<^verbatim>\<open>_assigned\<close>, and the global stack filtered to the tile's range. The
  \<^verbatim>\<open>assert\<close> reads \<^verbatim>\<open>_assigned[ k ]\<close> only when it is compiled in.\<close>

definition scan_range :: "coordinates \<Rightarrow> ptr \<Rightarrow> ptr \<Rightarrow> nat \<Rightarrow> nat \<Rightarrow> memory \<Rightarrow> memory res" where
  "scan_range c local_nnzs local_stack lower_bound upper_bound m =
    for_loop [lower_bound..<upper_bound] (\<lambda>i m1.
      bnd (rd_arr m1 (c_assigned c) i) (\<lambda>a.
      if a then push_local m1 local_nnzs local_stack (i - lower_bound) else Inr m1)) m"

definition scan_stack :: "env \<Rightarrow> coordinates \<Rightarrow> ptr \<Rightarrow> ptr \<Rightarrow> nat \<Rightarrow> nat \<Rightarrow> memory \<Rightarrow> memory res" where
  "scan_stack e c local_nnzs local_stack lower_bound upper_bound m =
    for_loop [0..<c_n c] (\<lambda>i m1.
      bnd (rd_buf m1 (c_stack c) i) (\<lambda>k.
      if lower_bound \<le> k \<and> k < upper_bound then
        bnd (if NDEBUG e then Inr ()
             else bnd (rd_arr m1 (c_assigned c) k) (\<lambda>a. assert_c e a)) (\<lambda>_.
        push_local m1 local_nnzs local_stack (k - lower_bound))
      else Inr m1)) m"

definition asyncSubsetInit :: "env \<Rightarrow> coordinates \<Rightarrow> memory \<Rightarrow> nat \<Rightarrow> nat \<Rightarrow> memory res" where
  "asyncSubsetInit e c m lower_bound upper_bound =
    (if c_cap c = 0 then Inr m
     else
       bnd (udiv lower_bound (getTileSize (analytic_model c))) (\<lambda>tile_id.
       bnd (vec_at (local_buffer c) tile_id) (\<lambda>local_nnzs.
       bnd (ptr_add local_nnzs 1) (\<lambda>local_stack.
       bnd (wr_buf m local_nnzs 0 0) (\<lambda>m1.
       bnd (usub upper_bound lower_bound) (\<lambda>width.
       bnd (if width < c_n c
            then scan_range c local_nnzs local_stack lower_bound upper_bound m1
            else scan_stack e c local_nnzs local_stack lower_bound upper_bound m1) (\<lambda>m2.
       wr_buf m2 (local_new_nnzs c) tile_id 0)))))))"

text \<open>\<^verbatim>\<open>asyncSubset\<close> is \<^verbatim>\<open>const\<close>: its call of \<^verbatim>\<open>set\<close> passes
  \<^verbatim>\<open>arr_initialized = true\<close> and writes nothing, so only the view is returned.\<close>

definition asyncSubset :: "env \<Rightarrow> coordinates \<Rightarrow> memory \<Rightarrow> nat \<Rightarrow> nat \<Rightarrow> coordinates res" where
  "asyncSubset e c m lower_bound upper_bound =
    bnd (assert_c e (c_cap c > 0)) (\<lambda>_.
    bnd (udiv lower_bound (getTileSize (analytic_model c))) (\<lambda>tile_id.
    bnd (vec_at (local_buffer c) tile_id) (\<lambda>local_nnzs.
    bnd (ptr_add local_nnzs 1) (\<lambda>local_stack.
    let ret = Coordinates (AnalyticModel0 e) in
    bnd (usub upper_bound lower_bound) (\<lambda>width.
    bnd (assert_c e (width \<le> getTileSize (analytic_model c))) (\<lambda>_.
    bnd (ptr_add (c_assigned c) lower_bound) (\<lambda>a.
    bnd (set_c e ret m a True local_stack width False) (\<lambda>(ret1, _).
    bnd (rd_buf m local_nnzs 0) (\<lambda>k.
    bnd (rd_buf m (local_new_nnzs c) tile_id) (\<lambda>new.
    let ret2 = ret1\<lparr>c_n := k + new\<rparr> in
    bnd (assert_c e (c_n ret2 \<le> c_cap ret2)) (\<lambda>_.
    Inr (ret2\<lparr>c_buf := 0\<rparr>))))))))))))"

definition asyncJoinSubset :: "env \<Rightarrow> coordinates \<Rightarrow> memory \<Rightarrow> coordinates \<Rightarrow> nat \<Rightarrow> nat \<Rightarrow> memory res" where
  "asyncJoinSubset e c m sub lower_bound upper_bound =
    bnd (assert_c e (c_cap c > 0)) (\<lambda>_.
    bnd (udiv lower_bound (getTileSize (analytic_model c))) (\<lambda>tile_id.
    bnd (vec_at (local_buffer c) tile_id) (\<lambda>local_nnzs.
    bnd (assert_c e (c_n sub \<le> c_cap sub)) (\<lambda>_.
    bnd (if NDEBUG e then Inr ()
         else bnd (rd_buf m local_nnzs 0) (\<lambda>k. assert_c e (k \<le> c_cap sub))) (\<lambda>_.
    bnd (rd_buf m local_nnzs 0) (\<lambda>k.
    bnd (usub (c_n sub) k) (\<lambda>d.
    wr_buf m (local_new_nnzs c) tile_id d)))))))"

fun any_new :: "memory \<Rightarrow> ptr \<Rightarrow> nat list \<Rightarrow> bool res" where
  "any_new m p [] = Inr False"
| "any_new m p (i # is) = bnd (rd_buf m p i) (\<lambda>v. if v > 0 then Inr True else any_new m p is)"

definition newNonZeroes :: "env \<Rightarrow> coordinates \<Rightarrow> memory \<Rightarrow> bool res" where
  "newNonZeroes e c m =
    (if c_cap c = 0 then Inr False
     else any_new m (local_new_nnzs c) [0..<getNumTiles (analytic_model c)])"









text \<open>\<^verbatim>\<open>joinSubset\<close>. The bounds of the copy loop and the start position are read
  before the loop; the \<^verbatim>\<open>assert\<close> on \<^verbatim>\<open>_assigned\<close> reads only when it is
  compiled in.\<close>

definition joinSubset :: "env \<Rightarrow> coordinates \<Rightarrow> memory \<Rightarrow> nat \<Rightarrow> nat \<Rightarrow> memory res" where
  "joinSubset e c m lower_bound upper_bound =
    (if c_cap c = 0 then Inr m
     else
       bnd (udiv lower_bound (getTileSize (analytic_model c))) (\<lambda>tile_id.
       bnd (vec_at (local_buffer c) tile_id) (\<lambda>local_nnzs.
       bnd (ptr_add local_nnzs 1) (\<lambda>local_stack.
       bnd (rd_buf m local_nnzs 0) (\<lambda>local_stack_start.
       bnd (rd_buf m (local_new_nnzs c) tile_id) (\<lambda>new.
       let local_stack_end = local_stack_start + new in
       bnd (assert_c e (local_stack_start \<le> local_stack_end)) (\<lambda>_.
       bnd (rd_buf m (pref_sum c) tile_id) (\<lambda>ps.
       bnd (usub ps new) (\<lambda>pos0.
       bnd (for_loop [local_stack_start..<local_stack_end] (\<lambda>k (m1, pos).
              bnd (rd_buf m1 local_stack k) (\<lambda>local_index.
              let global_index = local_index + lower_bound in
              bnd (assert_c e (global_index \<ge> lower_bound)) (\<lambda>_.
              bnd (assert_c e (global_index < upper_bound)) (\<lambda>_.
              bnd (if NDEBUG e then Inr ()
                   else bnd (rd_arr m1 (c_assigned c) global_index) (\<lambda>a. assert_c e a)) (\<lambda>_.
              bnd (assert_c e (pos < c_cap c)) (\<lambda>_.
              bnd (wr_buf m1 (c_stack c) pos global_index) (\<lambda>m2.
              Inr (m2, pos + 1)))))))) (m, pos0)) (\<lambda>(m3, _).
       wr_buf m3 (local_new_nnzs c) tile_id 0))))))))))"

subsection \<open>Observations and the representation invariant\<close>

text \<open>What a caller can observe: the flag of an index, the entries \<open>p[0..k)\<close> of a stack,
  and the compacted stack \<^verbatim>\<open>_stack[0.._n)\<close>.\<close>

definition presence :: "coordinates \<Rightarrow> memory \<Rightarrow> nat \<Rightarrow> bool" where
  "presence c m i = (rd_arr m (c_assigned c) i = Inr True)"

definition stack_at :: "memory \<Rightarrow> ptr \<Rightarrow> nat \<Rightarrow> nat list" where
  "stack_at m p k = (case p of None \<Rightarrow> [] | Some s \<Rightarrow> take k (drop s (buf_mem m)))"

definition compacted :: "coordinates \<Rightarrow> memory \<Rightarrow> nat list" where
  "compacted c m = stack_at m (c_stack c) (c_n c)"

text \<open>A bound structure: both pointers are set and \<open>c_cap c\<close> elements behind each of them
  lie inside their block.\<close>

definition bound :: "coordinates \<Rightarrow> memory \<Rightarrow> bool" where
  "bound c m = (case (c_assigned c, c_stack c) of
      (Some a, Some s) \<Rightarrow> a + c_cap c \<le> length (arr_mem m) \<and> s + c_cap c \<le> length (buf_mem m)
    | _ \<Rightarrow> False)"

text \<open>Invariant I1 of the data model.\<close>

definition I1 :: "coordinates \<Rightarrow> memory \<Rightarrow> bool" where
  "I1 c m = (bound c m \<and> c_n c \<le> c_cap c \<and> distinct (compacted c m) \<and>
     set (compacted c m) = set (filter (presence c m) [0..<c_cap c]))"

subsection \<open>The layout of the local coordinates\<close>

text \<open>The addresses that \<^verbatim>\<open>localCoordinatesInit\<close> installs, as offsets into the block
  of the stack: one segment of \<open>tile_size + 1\<close> elements per tile (the count of the
  nonzeroes found at initialisation, then the local stack), then one counter of new
  nonzeroes per tile, then one prefix-sum slot per tile.\<close>

definition buffer_off :: "coordinates \<Rightarrow> nat" where
  "buffer_off c = (case c_buffer c of None \<Rightarrow> 0 | Some b \<Rightarrow> b)"

definition stack_off :: "coordinates \<Rightarrow> nat" where
  "stack_off c = (case c_stack c of None \<Rightarrow> 0 | Some s \<Rightarrow> s)"

definition arr_off :: "coordinates \<Rightarrow> nat" where
  "arr_off c = (case c_assigned c of None \<Rightarrow> 0 | Some a \<Rightarrow> a)"

definition tile_ptr :: "coordinates \<Rightarrow> nat \<Rightarrow> nat" where
  "tile_ptr c t = buffer_off c + t * (getTileSize (analytic_model c) + 1)"

definition nnzs_off :: "coordinates \<Rightarrow> nat" where
  "nnzs_off c = buffer_off c +
     getNumTiles (analytic_model c) * (getTileSize (analytic_model c) + 1)"

definition pref_off :: "coordinates \<Rightarrow> nat" where
  "pref_off c = buffer_off c +
     getNumTiles (analytic_model c) * (getTileSize (analytic_model c) + 2)"

text \<open>The local coordinates are initialised and fit into the block.\<close>

definition laid_out :: "coordinates \<Rightarrow> memory \<Rightarrow> bool" where
  "laid_out c m = (bound c m \<and> c_buffer c = Some (stack_off c + c_cap c) \<and>
     0 < getTileSize (analytic_model c) \<and> 0 < getNumTiles (analytic_model c) \<and>
     local_buffer c = map (\<lambda>t. Some (tile_ptr c t)) [0..<getNumTiles (analytic_model c)] \<and>
     local_new_nnzs c = Some (nnzs_off c) \<and> pref_sum c = Some (pref_off c) \<and>
     pref_off c + getNumTiles (analytic_model c) \<le> length (buf_mem m))"

text \<open>What a tile holds: its count of initial nonzeroes, the first \<open>k\<close> entries of its
  local stack, its counter of new nonzeroes and its prefix sum.\<close>

definition local_nnzs_at :: "coordinates \<Rightarrow> memory \<Rightarrow> nat \<Rightarrow> nat" where
  "local_nnzs_at c m t = buf_mem m ! tile_ptr c t"

definition local_stack_at :: "coordinates \<Rightarrow> memory \<Rightarrow> nat \<Rightarrow> nat \<Rightarrow> nat list" where
  "local_stack_at c m t k = take k (drop (tile_ptr c t + 1) (buf_mem m))"

definition new_nnzs_at :: "coordinates \<Rightarrow> memory \<Rightarrow> nat \<Rightarrow> nat" where
  "new_nnzs_at c m t = buf_mem m ! (nnzs_off c + t)"


text \<open>The segment at \<open>lb\<close> holds the list \<open>L\<close>: its count is the length of \<open>L\<close> and its
  local stack starts with \<open>L\<close>.\<close>

definition seg_holds :: "memory \<Rightarrow> nat \<Rightarrow> nat list \<Rightarrow> bool" where
  "seg_holds m lb L = (buf_mem m ! lb = length L \<and>
     take (length L) (drop (lb + 1) (buf_mem m)) = L)"

text \<open>The view of a tile that \<^verbatim>\<open>asyncSubset\<close> returns.\<close>

definition tile_view :: "env \<Rightarrow> coordinates \<Rightarrow> memory \<Rightarrow> nat \<Rightarrow> nat \<Rightarrow> coordinates" where
  "tile_view e c m lower_bound upper_bound =
    (let t = lower_bound div getTileSize (analytic_model c) in
     (Coordinates (AnalyticModel0 e))
       \<lparr>c_assigned := Some (arr_off c + lower_bound),
        c_stack := Some (tile_ptr c t + 1),
        c_buffer := Some (tile_ptr c t + 1 + (upper_bound - lower_bound)),
        c_n := local_nnzs_at c m t + new_nnzs_at c m t,
        c_cap := upper_bound - lower_bound,
        c_buf := 0\<rparr>)"







text \<open>A structure of capacity 0 as the default constructor and the degenerate \<open>set\<close>
  leave it, and an empty store.\<close>

definition zero_coords :: coordinates where
  "zero_coords = Coordinates \<lparr>getNumThreads = 0, getTileSize = 0, getNumTiles = 0\<rparr>"

definition no_memory :: memory where
  "no_memory = \<lparr>arr_mem = [], buf_mem = []\<rparr>"





text \<open>What \<^verbatim>\<open>set\<close> needs from \<^verbatim>\<open>localRange\<close> in its parallel
  branch: the ranges of the team's threads stay inside \<open>[0, dim)\<close> and cover it.\<close>

definition team_range :: "env \<Rightarrow> nat \<Rightarrow> nat \<Rightarrow> nat \<times> nat" where
  "team_range e dim t = localRange e 0 dim (CACHE_LINE_SIZE e) t (omp_num_threads e)"

definition team_covers :: "env \<Rightarrow> nat \<Rightarrow> bool" where
  "team_covers e dim =
    ((\<forall>t \<in> {0..<omp_num_threads e}. snd (team_range e dim t) \<le> dim) \<and>
     (\<forall>i \<in> {0..<dim}. \<exists>t \<in> {0..<omp_num_threads e}.
        fst (team_range e dim t) \<le> i \<and> i < snd (team_range e dim t)))"

subsection \<open>A concrete platform and concrete structures\<close>

text \<open>One instance of the parameters, for the examples: a contiguous block distribution for
  \<^verbatim>\<open>localRange\<close>, an analytic model that fits a tile into a cache budget in bytes,
  a \<^verbatim>\<open>size_t\<close> of 64 bits and a \<^verbatim>\<open>config::VectorIndexType\<close> of 32 bits.\<close>

definition blockRange :: "nat \<Rightarrow> nat \<Rightarrow> nat \<Rightarrow> nat \<Rightarrow> nat \<Rightarrow> nat \<times> nat" where
  "blockRange start end bs t T =
    (let blocks = (end - start + bs - 1) div bs;
         per = (blocks + T - 1) div T;
         lo = min end (start + t * per * bs);
         hi = min end (lo + per * bs)
     in (lo, hi))"

definition budgetModel :: "nat \<Rightarrow> nat \<Rightarrow> nat \<Rightarrow> nat \<Rightarrow> analytic_model" where
  "budgetModel budget data_size vector_size accessed =
    (let ts = max 1 (budget div (data_size * accessed))
     in \<lparr>getNumThreads = 1, getTileSize = ts, getNumTiles = (vector_size + ts - 1) div ts\<rparr>)"

definition example_env :: "bool \<Rightarrow> nat \<Rightarrow> env" where
  "example_env ndebug budget =
    \<lparr>NDEBUG = ndebug, DEBUG = \<not> ndebug,
     vectorBufferSize = (\<lambda>n. 4 * n + 4), maxBufferTiles = (\<lambda>n. n),
     minLoopSize = 4, CACHE_LINE_SIZE = 2, omp_num_threads = 2, sizeof_StackType = 4,
     size_bits = 64, index_bits = 32,
     AnalyticModel0 = \<lparr>getNumThreads = 0, getTileSize = 0, getNumTiles = 0\<rparr>,
     AnalyticModel = budgetModel budget, localRange = blockRange\<rparr>"

text \<open>A structure of capacity 3 that holds index 2, and the same structure when dense. The
  stack starts at the second element of its block, as the stack of a tile does.\<close>

definition example_coords :: "nat \<Rightarrow> coordinates" where
  "example_coords k =
    (Coordinates \<lparr>getNumThreads = 0, getTileSize = 0, getNumTiles = 0\<rparr>)
      \<lparr>c_assigned := Some 0, c_stack := Some 1, c_buffer := Some 4, c_n := k, c_cap := 3\<rparr>"

definition example_memory :: memory where
  "example_memory = \<lparr>arr_mem = [False, False, True], buf_mem = [0, 2, 0, 0]\<rparr>"

definition dense_memory :: memory where
  "dense_memory = \<lparr>arr_mem = [True, True, True], buf_mem = [0, 2, 0, 1]\<rparr>"

text \<open>Caller-supplied memory with stale contents.\<close>

definition stale_memory :: memory where
  "stale_memory = \<lparr>arr_mem = [True, False, True], buf_mem = [7, 7, 7, 7]\<rparr>"

text \<open>A dense structure of capacity \<open>k\<close>, as \<^verbatim>\<open>local_assignAll\<close> leaves it.\<close>

definition dense_coords :: "nat \<Rightarrow> coordinates" where
  "dense_coords k =
    (Coordinates \<lparr>getNumThreads = 0, getTileSize = 0, getNumTiles = 0\<rparr>)
      \<lparr>c_assigned := Some 0, c_stack := Some 1, c_buffer := Some (1 + k), c_n := k, c_cap := k\<rparr>"

definition dense_mem :: "nat \<Rightarrow> memory" where
  "dense_mem k = \<lparr>arr_mem = replicate k True, buf_mem = 0 # [0..<k]\<rparr>"

text \<open>The scenario of capacity 8 with four tiles of two indices: the structure as \<open>set\<close>
  and \<open>localCoordinatesInit\<close> leave it, on a store of 8 flags and 28 elements (the stack,
  four segments of three, four counters and four prefix sums).\<close>

definition scenario_model :: analytic_model where
  "scenario_model = \<lparr>getNumThreads = 4, getTileSize = 2, getNumTiles = 4\<rparr>"

definition scenario_bound :: coordinates where
  "scenario_bound = zero_coords
     \<lparr>c_assigned := Some 0, c_stack := Some 0, c_buffer := Some 8,
      c_n := 0, c_cap := 8, c_buf := 36\<rparr>"

definition scenario_coords :: coordinates where
  "scenario_coords = scenario_bound
     \<lparr>local_buffer := [Some 8, Some 11, Some 14, Some 17],
      local_new_nnzs := Some 20, pref_sum := Some 24, analytic_model := scenario_model\<rparr>"



text \<open>The structure of the scenario when it holds the indices 1, 3, 6 and 7.\<close>

definition present_coords :: coordinates where
  "present_coords = scenario_coords\<lparr>c_n := 4\<rparr>"

definition present_memory :: memory where
  "present_memory = \<lparr>arr_mem = [False, True, False, True, False, False, True, True],
     buf_mem = [1, 3, 6, 7] @ replicate 24 0\<rparr>"



section \<open>Properties\<close>

subsection \<open>Basic facts\<close>

lemma bnd_Inr [simp]: "bnd (Inr x) f = f x"
  by (simp add: bnd_def)

lemma bnd_Inl [simp]: "bnd (Inl x) f = Inl x"
  by (simp add: bnd_def)

lemma assert_c_holds [simp]: "b \<Longrightarrow> assert_c e b = Inr ()"
  by (simp add: assert_c_def)

lemma boundD:
  assumes "bound c m"
  obtains a s where "c_assigned c = Some a" "c_stack c = Some s"
    "a + c_cap c \<le> length (arr_mem m)" "s + c_cap c \<le> length (buf_mem m)"
  using assms by (auto simp: bound_def split: option.splits)

lemma presence_bound:
  "c_assigned c = Some a \<Longrightarrow> a + i < length (arr_mem m) \<Longrightarrow> presence c m i = arr_mem m ! (a + i)"
  by (simp add: presence_def rd_arr_def)

lemma rd_arr_buf_upd [simp]: "rd_arr (m\<lparr>buf_mem := b\<rparr>) p i = rd_arr m p i"
  by (simp add: rd_arr_def split: option.splits)

lemma rd_buf_arr_upd [simp]: "rd_buf (m\<lparr>arr_mem := x\<rparr>) p i = rd_buf m p i"
  by (simp add: rd_buf_def split: option.splits)

lemma presence_buf_upd [simp]: "presence c (m\<lparr>buf_mem := b\<rparr>) i = presence c m i"
  by (simp add: presence_def)

lemma stack_at_arr_upd [simp]: "stack_at (m\<lparr>arr_mem := x\<rparr>) p k = stack_at m p k"
  by (simp add: stack_at_def split: option.splits)

lemma compacted_arr_upd [simp]: "compacted c (m\<lparr>arr_mem := x\<rparr>) = compacted c m"
  by (simp add: compacted_def)

lemma for_loop_append:
  "for_loop (xs @ ys) body s = bnd (for_loop xs body s) (for_loop ys body)"
  by (induction xs arbitrary: s) (auto simp: bnd_def split: sum.splits)

lemma bnd_return [simp]: "bnd r Inr = r"
  by (simp add: bnd_def split: sum.splits)

lemma for_loop_single [simp]: "for_loop [i] body = body i"
  by (rule ext) (simp add: bnd_def split: sum.splits)

lemma for_loop_upt_Suc:
  "a \<le> b \<Longrightarrow> for_loop [a..<Suc b] body s = bnd (for_loop [a..<b] body s) (body b)"
  by (simp add: for_loop_append)

lemma for_loop_rule:
  assumes "a \<le> b" and "P a s"
    and "\<And>i s. a \<le> i \<Longrightarrow> i < b \<Longrightarrow> P i s \<Longrightarrow> \<exists>s'. body i s = Inr s' \<and> P (Suc i) s'"
  shows "\<exists>s'. for_loop [a..<b] body s = Inr s' \<and> P b s'"
  using assms(1,3)
proof (induction b)
  case 0
  then show ?case using assms(2) by simp
next
  case (Suc b)
  show ?case
  proof (cases "a = Suc b")
    case True
    then show ?thesis using assms(2) by simp
  next
    case False
    then have ab: "a \<le> b" using Suc.prems(1) by simp
    have "\<exists>s'. for_loop [a..<b] body s = Inr s' \<and> P b s'"
      using Suc.IH [OF ab] Suc.prems(2) by simp
    then obtain s1 where 1: "for_loop [a..<b] body s = Inr s1" and 2: "P b s1" by blast
    from Suc.prems(2) [OF ab _ 2] obtain s2 where "body b s1 = Inr s2" "P (Suc b) s2" by auto
    then show ?thesis using 1 ab by (simp add: for_loop_append)
  qed
qed

lemma for_loop_empty [simp]: "b \<le> a \<Longrightarrow> for_loop [a..<b] body s = Inr s"
  by simp

text \<open>A loop that writes \<^verbatim>\<open>false\<close> to the flags of a range.\<close>

lemma clear_range:
  assumes "a + hi \<le> length (arr_mem m)"
  shows "\<exists>m'. clear_flags (Some a) lo hi m = Inr m' \<and>
     buf_mem m' = buf_mem m \<and> length (arr_mem m') = length (arr_mem m) \<and>
     (\<forall>j < length (arr_mem m). arr_mem m' ! j =
        (if a + lo \<le> j \<and> j < a + hi then False else arr_mem m ! j))"
proof (cases "lo \<le> hi")
  case False
  then show ?thesis by (auto simp: clear_flags_def)
next
  case True
  let ?P = "\<lambda>(i::nat) (m'::memory). buf_mem m' = buf_mem m \<and> length (arr_mem m') = length (arr_mem m) \<and>
     (\<forall>j < length (arr_mem m). arr_mem m' ! j =
        (if a + lo \<le> j \<and> j < a + i then False else arr_mem m ! j))"
  have "\<exists>m'. for_loop [lo..<hi] (\<lambda>i m1. wr_arr m1 (Some a) i False) m = Inr m' \<and> ?P hi m'"
  proof (rule for_loop_rule [where P = ?P, OF True])
    show "?P lo m" by auto
  next
    fix i s assume "lo \<le> i" "i < hi" "?P i s"
    then show "\<exists>s'. wr_arr s (Some a) i False = Inr s' \<and> ?P (Suc i) s'"
      using assms by (auto simp: wr_arr_def nth_list_update)
  qed
  then show ?thesis by (simp add: clear_flags_def)
qed

subsection \<open>Binding memory\<close>

lemma team_covers_hi:
  "team_covers e dim \<Longrightarrow> t < omp_num_threads e \<Longrightarrow> snd (team_range e dim t) \<le> dim"
  by (simp add: team_covers_def)

lemma team_covers_ex:
  assumes "team_covers e dim" and "i < dim"
  shows "\<exists>t < omp_num_threads e. fst (team_range e dim t) \<le> i \<and> i < snd (team_range e dim t)"
proof -
  have "i \<in> {0..<dim}" using assms(2) by simp
  with assms(1) have "\<exists>t \<in> {0..<omp_num_threads e}.
        fst (team_range e dim t) \<le> i \<and> i < snd (team_range e dim t)"
    unfolding team_covers_def by blast
  then obtain t where "t \<in> {0..<omp_num_threads e}" "fst (team_range e dim t) \<le> i"
    "i < snd (team_range e dim t)" by blast
  then show ?thesis by auto
qed

lemma set_parallel_loop:
  assumes "team_covers e dim" and "a + dim \<le> length (arr_mem m)"
  shows "\<exists>m'. clear_team e (Some a) dim m = Inr m' \<and> buf_mem m' = buf_mem m \<and>
          length (arr_mem m') = length (arr_mem m) \<and> (\<forall>i < dim. \<not> arr_mem m' ! (a + i))"
proof -
  let ?body = "\<lambda>t m1. case localRange e 0 dim (CACHE_LINE_SIZE e) t (omp_num_threads e) of
              (start, end) \<Rightarrow> clear_flags (Some a) start end m1"
  let ?P = "\<lambda>(t::nat) (m'::memory). buf_mem m' = buf_mem m \<and>
     length (arr_mem m') = length (arr_mem m) \<and>
     (\<forall>i < dim. (\<exists>t' < t. fst (team_range e dim t') \<le> i \<and> i < snd (team_range e dim t'))
        \<longrightarrow> \<not> arr_mem m' ! (a + i))"
  have "\<exists>m'. for_loop [0..<omp_num_threads e] ?body m = Inr m' \<and> ?P (omp_num_threads e) m'"
  proof (rule for_loop_rule [where P = ?P])
    show "0 \<le> omp_num_threads e" by simp
    show "?P 0 m" by simp
  next
    fix t s assume t: "0 \<le> t" "t < omp_num_threads e" and P: "?P t s"
    obtain lo hi where r: "team_range e dim t = (lo, hi)" by (cases "team_range e dim t")
    have hi: "hi \<le> dim" using team_covers_hi [OF assms(1) t(2)] r by simp
    have "a + hi \<le> length (arr_mem s)" using hi assms(2) P by simp
    from clear_range [OF this, of lo] obtain s' where
      1: "clear_flags (Some a) lo hi s = Inr s'"
      and 2: "buf_mem s' = buf_mem s" "length (arr_mem s') = length (arr_mem s)"
      and 3: "\<forall>j < length (arr_mem s). arr_mem s' ! j =
        (if a + lo \<le> j \<and> j < a + hi then False else arr_mem s ! j)"
      by blast
    have b: "?body t s = Inr s'" using 1 r by (simp add: team_range_def)
    have "?P (Suc t) s'"
    proof (intro conjI allI impI)
      show "buf_mem s' = buf_mem m" using 2 P by simp
      show "length (arr_mem s') = length (arr_mem m)" using 2 P by simp
    next
      fix i assume i: "i < dim"
        and ex: "\<exists>t' < Suc t. fst (team_range e dim t') \<le> i \<and> i < snd (team_range e dim t')"
      have il: "a + i < length (arr_mem s)" using i assms(2) P by simp
      from ex obtain t' where t': "t' < Suc t" "fst (team_range e dim t') \<le> i"
        "i < snd (team_range e dim t')" by blast
      show "\<not> arr_mem s' ! (a + i)"
      proof (cases "t' = t")
        case True
        then show ?thesis using t' r 3 il by simp
      next
        case False
        then have "t' < t" using t' by simp
        then have "\<not> arr_mem s ! (a + i)" using P i t' by blast
        then show ?thesis using 3 il by simp
      qed
    qed
    with b show "\<exists>s'. ?body t s = Inr s' \<and> ?P (Suc t) s'" by blast
  qed
  then obtain m' where 1: "for_loop [0..<omp_num_threads e] ?body m = Inr m'"
     and 2: "?P (omp_num_threads e) m'" by blast
  have "\<forall>i < dim. \<not> arr_mem m' ! (a + i)"
  proof (intro allI impI)
    fix i assume i: "i < dim"
    then obtain t where "t < omp_num_threads e" "fst (team_range e dim t) \<le> i"
      "i < snd (team_range e dim t)"
      using team_covers_ex [OF assms(1)] by blast
    then show "\<not> arr_mem m' ! (a + i)" using 2 i by blast
  qed
  then show ?thesis using 1 2 by (simp add: clear_team_def)
qed

lemma set_clears:
  assumes "a + dim \<le> length (arr_mem m)" and "parallel \<longrightarrow> team_covers e dim"
  shows "\<exists>m'. set_c e c m (Some a) False (Some b) dim parallel =
      Inr (c\<lparr>c_assigned := Some a, c_stack := Some b, c_buffer := Some (b + dim),
              c_n := 0, c_cap := dim, c_buf := vectorBufferSize e dim\<rparr>, m') \<and>
      buf_mem m' = buf_mem m \<and> length (arr_mem m') = length (arr_mem m) \<and>
      (\<forall>i < dim. \<not> arr_mem m' ! (a + i))"
proof (cases "dim = 0")
  case True
  then show ?thesis by (simp add: set_c_def ptr_add_def)
next
  case False
  show ?thesis
  proof (cases parallel)
    case True
    from set_parallel_loop [of e dim a m] assms True obtain m' where
      "clear_team e (Some a) dim m = Inr m'" "buf_mem m' = buf_mem m"
      "length (arr_mem m') = length (arr_mem m)"
      "\<forall>i < dim. \<not> arr_mem m' ! (a + i)" by blast
    then show ?thesis using True False by (simp add: set_c_def ptr_add_def)
  next
    case np: False
    from clear_range [of a dim m 0] assms(1) obtain m' where
      "clear_flags (Some a) 0 dim m = Inr m'"
      "buf_mem m' = buf_mem m" "length (arr_mem m') = length (arr_mem m)"
      "\<forall>j < length (arr_mem m). arr_mem m' ! j =
        (if a + 0 \<le> j \<and> j < a + dim then False else arr_mem m ! j)" by blast
    then show ?thesis using np False assms(1) by (simp add: set_c_def ptr_add_def)
  qed
qed

text \<open>The block distribution of the concrete platform covers three flags with two
  threads.\<close>

lemma upt2: "{0..<2::nat} = {0, 1}" by auto
lemma upt3: "{0..<3::nat} = {0, 1, 2}" by auto

lemma ex_threads: "omp_num_threads (example_env False 16) = 2"
  by (simp add: example_env_def)

lemma ex_range0: "team_range (example_env False 16) 3 0 = (0, 2)"
  by (simp add: team_range_def example_env_def blockRange_def Let_def)

lemma ex_range1: "team_range (example_env False 16) 3 (Suc 0) = (2, 3)"
  by (simp add: team_range_def example_env_def blockRange_def Let_def)

lemma ex_covers: "team_covers (example_env False 16) 3"
  unfolding team_covers_def ex_threads upt2 upt3
  by (simp add: ex_range0 ex_range1)

text \<open>
  Claim C10. \<open>set\<close> with \<open>arr_initialized = false\<close> on memory that holds the flags
  (and, in the parallel branch, with a team whose ranges cover them) returns an empty
  structure of capacity \<open>dim\<close>: the count is 0, the compacted stack is empty, every flag
  in \<open>[0, dim)\<close> reads false and \<open>assigned\<close> is false for every index, whatever the
  memory held before. The degenerate call with two null pointers and dimension 0 leaves
  capacity 0, count 0 and no buffer bound, and does not touch the memory.
\<close>

theorem set_binds_empty:
  "(a + dim \<le> length (arr_mem m) \<and> (parallel \<longrightarrow> team_covers e dim) \<longrightarrow>
     (\<exists>c' m'. set_c e c m (Some a) False (Some b) dim parallel = Inr (c', m') \<and>
        c_n c' = 0 \<and> c_cap c' = dim \<and> c_assigned c' = Some a \<and> c_stack c' = Some b \<and>
        isEmpty c' \<and> compacted c' m' = [] \<and>
        (\<forall>i < dim. rd_arr m' (c_assigned c') i = Inr False) \<and>
        (\<forall>i < dim. assigned e c' m' i = Inr False))) \<and>
   (\<exists>c'. set_c e c m None arr_initialized None 0 parallel = Inr (c', m) \<and>
        c_n c' = 0 \<and> c_cap c' = 0 \<and>
        c_assigned c' = None \<and> c_stack c' = None \<and> c_buffer c' = None)"
proof (intro conjI impI)
  assume h: "a + dim \<le> length (arr_mem m) \<and> (parallel \<longrightarrow> team_covers e dim)"
  then have h1: "a + dim \<le> length (arr_mem m)" and h2: "parallel \<longrightarrow> team_covers e dim"
    by simp_all
  define c' where "c' = c\<lparr>c_assigned := Some a, c_stack := Some b, c_buffer := Some (b + dim),
              c_n := 0, c_cap := dim, c_buf := vectorBufferSize e dim\<rparr>"
  from set_clears [OF h1 h2, of c b] obtain m' where
    1: "set_c e c m (Some a) False (Some b) dim parallel = Inr (c', m')"
    and 2: "length (arr_mem m') = length (arr_mem m)"
    and 3: "\<forall>i < dim. \<not> arr_mem m' ! (a + i)"
    unfolding c'_def by blast
  have 4: "\<forall>i < dim. rd_arr m' (c_assigned c') i = Inr False"
    using 2 3 h1 by (simp add: rd_arr_def c'_def)
  have 5: "\<forall>i < dim. assigned e c' m' i = Inr False"
    using 4 by (auto simp: assigned_def c'_def)
  have 6: "c_n c' = 0 \<and> c_cap c' = dim \<and> c_assigned c' = Some a \<and> c_stack c' = Some b \<and>
        isEmpty c' \<and> compacted c' m' = []"
    by (simp add: c'_def isEmpty_def compacted_def stack_at_def)
  show "\<exists>c' m'. set_c e c m (Some a) False (Some b) dim parallel = Inr (c', m') \<and>
        c_n c' = 0 \<and> c_cap c' = dim \<and> c_assigned c' = Some a \<and> c_stack c' = Some b \<and>
        isEmpty c' \<and> compacted c' m' = [] \<and>
        (\<forall>i < dim. rd_arr m' (c_assigned c') i = Inr False) \<and>
        (\<forall>i < dim. assigned e c' m' i = Inr False)"
    using 1 4 5 6 by blast
next
  show "\<exists>c'. set_c e c m None arr_initialized None 0 parallel = Inr (c', m) \<and>
        c_n c' = 0 \<and> c_cap c' = 0 \<and>
        c_assigned c' = None \<and> c_stack c' = None \<and> c_buffer c' = None"
    by (simp add: set_c_def)
qed

theorem set_binds_empty_witness:
  "0 + 3 \<le> length (arr_mem stale_memory) \<and> team_covers (example_env False 16) 3 \<and>
   (\<exists>c' m'. set_c (example_env False 16) (example_coords 1) stale_memory (Some 0) False (Some 0) 3 True
        = Inr (c', m') \<and> c_n c' = 0 \<and> c_cap c' = 3 \<and> compacted c' m' = [] \<and>
        (\<forall>i < 3. rd_arr m' (c_assigned c') i = Inr False) \<and>
        (\<forall>i < 3. assigned (example_env False 16) c' m' i = Inr False))"
proof -
  have h1: "0 + 3 \<le> length (arr_mem stale_memory)" by (simp add: stale_memory_def)
  have h2: "team_covers (example_env False 16) 3" by (rule ex_covers)
  from set_binds_empty [of 0 3 stale_memory True "example_env False 16" "example_coords 1" 0]
  have "0 + 3 \<le> length (arr_mem stale_memory) \<and> (True \<longrightarrow> team_covers (example_env False 16) 3) \<longrightarrow>
     (\<exists>c' m'. set_c (example_env False 16) (example_coords 1) stale_memory (Some 0) False (Some 0) 3 True
        = Inr (c', m') \<and>
        c_n c' = 0 \<and> c_cap c' = 3 \<and> c_assigned c' = Some 0 \<and> c_stack c' = Some 0 \<and>
        isEmpty c' \<and> compacted c' m' = [] \<and>
        (\<forall>i < 3. rd_arr m' (c_assigned c') i = Inr False) \<and>
        (\<forall>i < 3. assigned (example_env False 16) c' m' i = Inr False))"
    by (rule conjunct1)
  with h1 h2 show ?thesis by blast
qed

subsection \<open>The invariant, unpacked\<close>

lemma compacted_length:
  "c_stack c = Some s \<Longrightarrow> s + c_n c \<le> length (buf_mem m) \<Longrightarrow> length (compacted c m) = c_n c"
  by (simp add: compacted_def stack_at_def)

lemma compacted_nth:
  "c_stack c = Some s \<Longrightarrow> s + c_n c \<le> length (buf_mem m) \<Longrightarrow> k < c_n c \<Longrightarrow>
    compacted c m ! k = buf_mem m ! (s + k)"
  by (simp add: compacted_def stack_at_def)

lemma compacted_map:
  assumes "c_stack c = Some s" and "s + c_n c \<le> length (buf_mem m)"
  shows "compacted c m = map (\<lambda>k. buf_mem m ! (s + k)) [0..<c_n c]"
  by (rule nth_equalityI) (simp_all add: compacted_length [OF assms] compacted_nth [OF assms])

lemma compacted_set:
  assumes "c_stack c = Some s" and "s + c_n c \<le> length (buf_mem m)"
  shows "set (compacted c m) = {buf_mem m ! (s + k) | k. k < c_n c}"
  unfolding compacted_map [OF assms] by auto

lemma presence_set: "set (filter (presence c m) [0..<n]) = {i. i < n \<and> presence c m i}"
  by auto

lemma I1_D:
  assumes "I1 c m"
  obtains a s where "c_assigned c = Some a" "c_stack c = Some s"
    "a + c_cap c \<le> length (arr_mem m)" "s + c_cap c \<le> length (buf_mem m)"
    "c_n c \<le> c_cap c" "distinct (compacted c m)"
    "\<forall>k < c_n c. buf_mem m ! (s + k) < c_cap c \<and> arr_mem m ! (a + buf_mem m ! (s + k))"
    "\<forall>i < c_cap c. arr_mem m ! (a + i) \<longrightarrow> (\<exists>k < c_n c. buf_mem m ! (s + k) = i)"
proof -
  from assms have b: "bound c m" and n: "c_n c \<le> c_cap c" and d: "distinct (compacted c m)"
    and e: "set (compacted c m) = {i. i < c_cap c \<and> presence c m i}"
    by (simp_all add: I1_def presence_set)
  from b obtain a s where p: "c_assigned c = Some a" "c_stack c = Some s"
    and la: "a + c_cap c \<le> length (arr_mem m)" and ls: "s + c_cap c \<le> length (buf_mem m)"
    by (rule boundD)
  have sn: "s + c_n c \<le> length (buf_mem m)" using n ls by simp
  have e': "{buf_mem m ! (s + k) | k. k < c_n c} = {i. i < c_cap c \<and> presence c m i}"
    using e compacted_set [OF p(2) sn] by simp
  have 1: "\<forall>k < c_n c. buf_mem m ! (s + k) < c_cap c \<and> arr_mem m ! (a + buf_mem m ! (s + k))"
  proof (intro allI impI)
    fix k assume "k < c_n c"
    then have "buf_mem m ! (s + k) \<in> {i. i < c_cap c \<and> presence c m i}" using e' by blast
    then have "buf_mem m ! (s + k) < c_cap c" "presence c m (buf_mem m ! (s + k))" by simp_all
    then show "buf_mem m ! (s + k) < c_cap c \<and> arr_mem m ! (a + buf_mem m ! (s + k))"
      using presence_bound [OF p(1)] la by simp
  qed
  have 2: "\<forall>i < c_cap c. arr_mem m ! (a + i) \<longrightarrow> (\<exists>k < c_n c. buf_mem m ! (s + k) = i)"
  proof (intro allI impI)
    fix i assume "i < c_cap c" "arr_mem m ! (a + i)"
    then have "i \<in> {i. i < c_cap c \<and> presence c m i}"
      using presence_bound [OF p(1)] la by simp
    then have "i \<in> {buf_mem m ! (s + k) | k. k < c_n c}" using e' by simp
    then show "\<exists>k < c_n c. buf_mem m ! (s + k) = i" by blast
  qed
  show thesis using that [OF p la ls n d 1 2] .
qed

lemma clear_stack_walk:
  assumes "c_assigned c = Some a" and "c_stack c = Some s"
    and "s + c_n c \<le> length (buf_mem m)" and "a + c_cap c \<le> length (arr_mem m)"
    and "\<forall>k < c_n c. buf_mem m ! (s + k) < c_cap c"
  shows "\<exists>m'. clear_stack c m = Inr m' \<and> buf_mem m' = buf_mem m \<and>
     length (arr_mem m') = length (arr_mem m) \<and>
     (\<forall>j < length (arr_mem m). arr_mem m' ! j =
        (if \<exists>k < c_n c. j = a + buf_mem m ! (s + k) then False else arr_mem m ! j))"
proof -
  let ?P = "\<lambda>(i::nat) (m'::memory). buf_mem m' = buf_mem m \<and>
     length (arr_mem m') = length (arr_mem m) \<and>
     (\<forall>j < length (arr_mem m). arr_mem m' ! j =
        (if \<exists>k < i. j = a + buf_mem m ! (s + k) then False else arr_mem m ! j))"
  let ?body = "\<lambda>k m1. bnd (rd_buf m1 (c_stack c) k) (\<lambda>j. wr_arr m1 (c_assigned c) j False)"
  have "\<exists>m'. for_loop [0..<c_n c] ?body m = Inr m' \<and> ?P (c_n c) m'"
  proof (rule for_loop_rule [where P = ?P])
    show "0 \<le> c_n c" by simp
    show "?P 0 m" by simp
  next
    fix i t assume i: "0 \<le> i" "i < c_n c" and P: "?P i t"
    let ?j = "buf_mem m ! (s + i)"
    have r: "rd_buf t (c_stack c) i = Inr ?j"
      using assms(2,3) i P by (simp add: rd_buf_def)
    have jl: "a + ?j < length (arr_mem t)" using assms(4,5) i P by (metis add_less_cancel_left less_le_trans)
    have w: "wr_arr t (c_assigned c) ?j False = Inr (t\<lparr>arr_mem := (arr_mem t)[a + ?j := False]\<rparr>)"
      using assms(1) jl by (simp add: wr_arr_def)
    have "?P (Suc i) (t\<lparr>arr_mem := (arr_mem t)[a + ?j := False]\<rparr>)"
      using P jl by (auto simp: nth_list_update less_Suc_eq)
    then show "\<exists>s'. ?body i t = Inr s' \<and> ?P (Suc i) s'" using r w by simp
  qed
  then show ?thesis by (simp add: clear_stack_def)
qed

lemma I1_I:
  assumes "c_assigned c = Some a" and "c_stack c = Some s"
    and "a + c_cap c \<le> length (arr_mem m)" and "s + c_cap c \<le> length (buf_mem m)"
    and "c_n c \<le> c_cap c" and "distinct (compacted c m)"
    and "\<forall>k < c_n c. buf_mem m ! (s + k) < c_cap c \<and> arr_mem m ! (a + buf_mem m ! (s + k))"
    and "\<forall>i < c_cap c. arr_mem m ! (a + i) \<longrightarrow> (\<exists>k < c_n c. buf_mem m ! (s + k) = i)"
  shows "I1 c m"
proof -
  have sn: "s + c_n c \<le> length (buf_mem m)" using assms(4,5) by simp
  have p: "\<And>i. i < c_cap c \<Longrightarrow> presence c m i = arr_mem m ! (a + i)"
    using presence_bound [OF assms(1)] assms(3) by simp
  have "{buf_mem m ! (s + k) | k. k < c_n c} = {i. i < c_cap c \<and> presence c m i}"
  proof (intro set_eqI iffI)
    fix x assume "x \<in> {buf_mem m ! (s + k) | k. k < c_n c}"
    then obtain k where "k < c_n c" "x = buf_mem m ! (s + k)" by blast
    then show "x \<in> {i. i < c_cap c \<and> presence c m i}" using assms(7) p by simp
  next
    fix x assume "x \<in> {i. i < c_cap c \<and> presence c m i}"
    then have "x < c_cap c" "arr_mem m ! (a + x)" using p by auto
    then obtain k where "k < c_n c" "buf_mem m ! (s + k) = x" using assms(8) by blast
    then show "x \<in> {buf_mem m ! (s + k) | k. k < c_n c}" by blast
  qed
  then have "set (compacted c m) = set (filter (presence c m) [0..<c_cap c])"
    using compacted_set [OF assms(2) sn] presence_set by simp
  moreover have "bound c m" using assms(1-4) by (simp add: bound_def)
  ultimately show ?thesis using assms(5,6) by (simp add: I1_def)
qed

lemma clear_spec:
  assumes "I1 c m"
  shows "\<exists>m'. clear e c m = Inr (c\<lparr>c_n := 0\<rparr>, m') \<and> buf_mem m' = buf_mem m \<and>
     length (arr_mem m') = length (arr_mem m) \<and>
     (\<forall>i < c_cap c. rd_arr m' (c_assigned c) i = Inr False) \<and> I1 (c\<lparr>c_n := 0\<rparr>) m'"
proof -
  from assms obtain a s where p: "c_assigned c = Some a" "c_stack c = Some s"
    and la: "a + c_cap c \<le> length (arr_mem m)" and ls: "s + c_cap c \<le> length (buf_mem m)"
    and n: "c_n c \<le> c_cap c"
    and st: "\<forall>k < c_n c. buf_mem m ! (s + k) < c_cap c \<and> arr_mem m ! (a + buf_mem m ! (s + k))"
    and fl: "\<forall>i < c_cap c. arr_mem m ! (a + i) \<longrightarrow> (\<exists>k < c_n c. buf_mem m ! (s + k) = i)"
    by (rule I1_D)
  have "\<exists>m'. (if c_n c = c_cap c then
           bnd (assert_c e (\<not> (c_assigned c = None \<and> c_cap c > 0))) (\<lambda>_.
           clear_flags (c_assigned c) 0 (c_cap c) m)
         else if c_n c < minLoopSize e then clear_stack c m
         else clear_stack c m) = Inr m' \<and> buf_mem m' = buf_mem m \<and>
       length (arr_mem m') = length (arr_mem m) \<and> (\<forall>i < c_cap c. \<not> arr_mem m' ! (a + i))"
  proof (cases "c_n c = c_cap c")
    case True
    from clear_range [OF la, of 0] obtain m' where
      "clear_flags (Some a) 0 (c_cap c) m = Inr m'" "buf_mem m' = buf_mem m"
      "length (arr_mem m') = length (arr_mem m)"
      "\<forall>j < length (arr_mem m). arr_mem m' ! j =
        (if a + 0 \<le> j \<and> j < a + c_cap c then False else arr_mem m ! j)" by blast
    then show ?thesis using True p la by simp
  next
    case False
    have sn: "s + c_n c \<le> length (buf_mem m)" using n ls by simp
    from clear_stack_walk [OF p sn la] st obtain m' where
      1: "clear_stack c m = Inr m'" "buf_mem m' = buf_mem m"
      "length (arr_mem m') = length (arr_mem m)"
      and 2: "\<forall>j < length (arr_mem m). arr_mem m' ! j =
        (if \<exists>k < c_n c. j = a + buf_mem m ! (s + k) then False else arr_mem m ! j)" by blast
    have "\<forall>i < c_cap c. \<not> arr_mem m' ! (a + i)"
    proof (intro allI impI)
      fix i assume i: "i < c_cap c"
      then have il: "a + i < length (arr_mem m)" using la by simp
      show "\<not> arr_mem m' ! (a + i)"
      proof (cases "arr_mem m ! (a + i)")
        case True
        then obtain k where "k < c_n c" "buf_mem m ! (s + k) = i" using fl i by blast
        then have "\<exists>k < c_n c. a + i = a + buf_mem m ! (s + k)" by auto
        then show ?thesis using 2 il by simp
      next
        case False
        then show ?thesis using 2 il by simp
      qed
    qed
    then show ?thesis using 1 False by simp
  qed
  then obtain m' where 1: "clear e c m = Inr (c\<lparr>c_n := 0\<rparr>, m')"
    and 2: "buf_mem m' = buf_mem m" "length (arr_mem m') = length (arr_mem m)"
    and 3: "\<forall>i < c_cap c. \<not> arr_mem m' ! (a + i)"
    by (auto simp: clear_def)
  have 4: "\<forall>i < c_cap c. rd_arr m' (c_assigned c) i = Inr False"
    using 2 3 p la by (simp add: rd_arr_def)
  have "I1 (c\<lparr>c_n := 0\<rparr>) m'"
    by (rule I1_I [where a = a and s = s])
       (use p la ls 2 3 in \<open>simp_all add: compacted_def stack_at_def\<close>)
  then show ?thesis using 1 2 4 by blast
qed

lemma ex_I1: "I1 (example_coords 1) example_memory"
  by (simp add: I1_def bound_def compacted_def stack_at_def presence_def rd_arr_def
      example_coords_def example_memory_def Coordinates_def upt_rec)

lemma assign_all_loop:
  assumes "a + k \<le> length (arr_mem m)" and "s + k \<le> length (buf_mem m)"
  shows "\<exists>m'. for_loop [0..<k] (\<lambda>i m1.
            bnd (wr_arr m1 (Some a) i True) (\<lambda>m2. wr_buf m2 (Some s) i i)) m = Inr m' \<and>
     length (arr_mem m') = length (arr_mem m) \<and> length (buf_mem m') = length (buf_mem m) \<and>
     (\<forall>i < k. arr_mem m' ! (a + i) \<and> buf_mem m' ! (s + i) = i)"
proof -
  let ?P = "\<lambda>(j::nat) (m'::memory). length (arr_mem m') = length (arr_mem m) \<and>
     length (buf_mem m') = length (buf_mem m) \<and>
     (\<forall>i < j. arr_mem m' ! (a + i) \<and> buf_mem m' ! (s + i) = i)"
  let ?body = "\<lambda>i m1. bnd (wr_arr m1 (Some a) i True) (\<lambda>m2. wr_buf m2 (Some s) i i)"
  have "\<exists>m'. for_loop [0..<k] ?body m = Inr m' \<and> ?P k m'"
  proof (rule for_loop_rule [where P = ?P])
    show "0 \<le> k" by simp
    show "?P 0 m" by simp
  next
    fix i t assume i: "0 \<le> i" "i < k" and P: "?P i t"
    let ?t' = "t\<lparr>arr_mem := (arr_mem t)[a + i := True], buf_mem := (buf_mem t)[s + i := i]\<rparr>"
    have "?body i t = Inr ?t'"
      using i P assms by (simp add: wr_arr_def wr_buf_def)
    moreover have "?P (Suc i) ?t'"
      using i P assms by (auto simp: nth_list_update less_Suc_eq)
    ultimately show "\<exists>s'. ?body i t = Inr s' \<and> ?P (Suc i) s'" by blast
  qed
  then show ?thesis by simp
qed

lemma dense_I1:
  assumes "c_assigned c = Some a" and "c_stack c = Some s" and "c_n c = c_cap c"
    and "a + c_cap c \<le> length (arr_mem m)" and "s + c_cap c \<le> length (buf_mem m)"
    and "\<forall>i < c_cap c. arr_mem m ! (a + i) \<and> buf_mem m ! (s + i) = i"
  shows "I1 c m"
proof (rule I1_I [OF assms(1,2,4,5)])
  have sn: "s + c_n c \<le> length (buf_mem m)" using assms(3,5) by simp
  have "compacted c m = [0..<c_cap c]"
    unfolding compacted_map [OF assms(2) sn] using assms(3,6)
    by (intro nth_equalityI) simp_all
  then show "distinct (compacted c m)" by simp
qed (use assms in auto)

lemma local_assignAll_spec:
  assumes "I1 c m" and "c_stack c = Some s" and "1 \<le> s"
  shows "\<exists>c2 m2. local_assignAll e False c m = Inr (c2, m2) \<and> c_n c2 = c_cap c \<and>
     c_cap c2 = c_cap c \<and> I1 c2 m2"
proof -
  from assms(1) obtain a s' where p: "c_assigned c = Some a" "c_stack c = Some s'"
    and la: "a + c_cap c \<le> length (arr_mem m)" and ls': "s' + c_cap c \<le> length (buf_mem m)"
    and n: "c_n c \<le> c_cap c"
    by (rule I1_D)
  have s': "s' = s" using p assms(2) by simp
  have ls: "s + c_cap c \<le> length (buf_mem m)" using ls' s' by simp
  have pp: "ptr_pred (c_stack c) = Inr (Some (s - 1))"
    using assms(2,3) by (simp add: ptr_pred_def)
  show ?thesis
  proof (cases "c_n c = c_cap c")
    case True
    let ?m2 = "m\<lparr>buf_mem := (buf_mem m)[s - 1 := 0]\<rparr>"
    have 1: "local_assignAll e False c m = Inr (c, ?m2)"
      using True pp assms(3) ls by (simp add: local_assignAll_def wr_buf_def)
    have c: "compacted c ?m2 = compacted c m"
      using assms(2,3) by (simp add: compacted_def stack_at_def drop_update_cancel)
    have b: "bound c ?m2" using p la ls' by (simp add: bound_def)
    have pr: "presence c ?m2 = presence c m" by (rule ext) simp
    have "I1 c ?m2" using assms(1) c b pr by (simp add: I1_def)
    then show ?thesis using 1 True by blast
  next
    case False
    then have nl: "c_n c < c_cap c" using n by simp
    let ?c1 = "c\<lparr>c_n := c_cap c\<rparr>"
    from assign_all_loop [OF la ls] obtain m1 where
      l: "for_loop [0..<c_cap c] (\<lambda>i m1.
            bnd (wr_arr m1 (Some a) i True) (\<lambda>m2. wr_buf m2 (Some s) i i)) m = Inr m1"
      and len: "length (arr_mem m1) = length (arr_mem m)" "length (buf_mem m1) = length (buf_mem m)"
      and f: "\<forall>i < c_cap c. arr_mem m1 ! (a + i) \<and> buf_mem m1 ! (s + i) = i" by blast
    let ?m2 = "m1\<lparr>buf_mem := (buf_mem m1)[s - 1 := 0]\<rparr>"
    have 1: "local_assignAll e False c m = Inr (?c1, ?m2)"
      using False nl p assms(2,3) l len ls
      by (simp add: local_assignAll_def wr_buf_def ptr_pred_def Let_def)
    have "I1 ?c1 ?m2"
      by (rule dense_I1 [where a = a and s = s])
         (use p assms(2,3) la ls len f in \<open>simp_all add: nth_list_update\<close>)
    then show ?thesis using 1 by auto
  qed
qed

lemma dense_fixture_I1: "I1 (dense_coords k) (dense_mem k)"
  by (rule dense_I1 [where a = 0 and s = 1])
     (simp_all add: dense_coords_def dense_mem_def Coordinates_def)

subsection \<open>Sequential contract\<close>



text \<open>
  Claim C9. In every state with \<open>count = capacity\<close>, \<open>isDense\<close> is true and \<open>index k\<close>
  returns \<open>k\<close> for every \<open>k < count\<close>, whatever the stack holds.
\<close>

theorem dense_index:
  assumes "c_n c = c_cap c" and "k < c_n c"
  shows "isDense c \<and> index e c m k = Inr k"
  using assms by (simp add: isDense_def index_def)

theorem dense_index_witness:
  "c_n (example_coords 3) = c_cap (example_coords 3) \<and> 0 < c_n (example_coords 3) \<and>
   isDense (example_coords 3) \<and> index (example_env False 16) (example_coords 3) dense_memory 0 = Inr 0 \<and>
   compacted (example_coords 3) dense_memory = [2, 0, 1]"
proof -
  have h1: "c_n (example_coords 3) = c_cap (example_coords 3)"
    by (simp add: example_coords_def Coordinates_def)
  have h2: "0 < c_n (example_coords 3)"
    by (simp add: example_coords_def Coordinates_def)
  have h3: "compacted (example_coords 3) dense_memory = [2, 0, 1]"
    by (simp add: compacted_def stack_at_def example_coords_def dense_memory_def Coordinates_def)
  from dense_index [OF h1 h2, of "example_env False 16" dense_memory] h1 h2 h3
  show ?thesis by simp
qed

text \<open>
  Claim C7. On a structure that satisfies invariant I1, dense or sparse, \<open>clear\<close> returns
  with count 0 and every flag below the capacity false; when the slot before the stack
  exists, \<open>local_assignAll\<close> afterwards makes the count equal to the capacity again. In
  particular \<open>clear\<close> on the dense structure of capacity 100 leaves count 0 and all 100
  flags false, and \<open>local_assignAll\<close> afterwards leaves count 100.
\<close>

theorem clear_resets:
  "(I1 c m \<longrightarrow>
      (\<exists>m'. clear e c m = Inr (c\<lparr>c_n := 0\<rparr>, m') \<and>
         (\<forall>i < c_cap c. rd_arr m' (c_assigned c) i = Inr False) \<and>
         (\<forall>s. c_stack c = Some s \<and> 1 \<le> s \<longrightarrow>
            (\<exists>c2 m2. local_assignAll e False (c\<lparr>c_n := 0\<rparr>) m' = Inr (c2, m2) \<and>
               c_n c2 = c_cap c)))) \<and>
   (isDense (dense_coords 100) \<and> c_cap (dense_coords 100) = 100 \<and>
     (\<exists>m' c2 m2. clear e (dense_coords 100) (dense_mem 100)
           = Inr ((dense_coords 100)\<lparr>c_n := 0\<rparr>, m') \<and>
         (\<forall>i < 100. rd_arr m' (c_assigned (dense_coords 100)) i = Inr False) \<and>
         local_assignAll e False ((dense_coords 100)\<lparr>c_n := 0\<rparr>) m' = Inr (c2, m2) \<and>
         c_n c2 = 100))"
proof -
  have gen: "\<exists>m'. clear e c m = Inr (c\<lparr>c_n := 0\<rparr>, m') \<and>
         (\<forall>i < c_cap c. rd_arr m' (c_assigned c) i = Inr False) \<and>
         (\<forall>s. c_stack c = Some s \<and> 1 \<le> s \<longrightarrow>
            (\<exists>c2 m2. local_assignAll e False (c\<lparr>c_n := 0\<rparr>) m' = Inr (c2, m2) \<and>
               c_n c2 = c_cap c))" if inv: "I1 c m" for c m
  proof -
    from clear_spec [OF inv, of e] obtain m' where
      1: "clear e c m = Inr (c\<lparr>c_n := 0\<rparr>, m')"
      and 2: "\<forall>i < c_cap c. rd_arr m' (c_assigned c) i = Inr False"
      and 3: "I1 (c\<lparr>c_n := 0\<rparr>) m'" by blast
    have "\<exists>c2 m2. local_assignAll e False (c\<lparr>c_n := 0\<rparr>) m' = Inr (c2, m2) \<and>
               c_n c2 = c_cap c" if "c_stack c = Some s \<and> 1 \<le> s" for s
      using local_assignAll_spec [OF 3, of s e] that by auto
    then show ?thesis using 1 2 by blast
  qed
  have d: "isDense (dense_coords 100) \<and> c_cap (dense_coords 100) = 100"
    by (simp add: isDense_def dense_coords_def Coordinates_def)
  have s: "c_stack (dense_coords 100) = Some 1 \<and> (1::nat) \<le> 1"
    by (simp add: dense_coords_def Coordinates_def)
  from gen [OF dense_fixture_I1 [of 100]] s d
  have "\<exists>m' c2 m2. clear e (dense_coords 100) (dense_mem 100)
           = Inr ((dense_coords 100)\<lparr>c_n := 0\<rparr>, m') \<and>
         (\<forall>i < 100. rd_arr m' (c_assigned (dense_coords 100)) i = Inr False) \<and>
         local_assignAll e False ((dense_coords 100)\<lparr>c_n := 0\<rparr>) m' = Inr (c2, m2) \<and>
         c_n c2 = 100"
    by (metis (no_types, lifting))
  then show ?thesis using gen d by blast
qed

theorem clear_resets_witness:
  "I1 (example_coords 1) example_memory \<and> c_stack (example_coords 1) = Some 1 \<and> (1::nat) \<le> 1 \<and>
   (\<exists>m'. clear (example_env False 16) (example_coords 1) example_memory
           = Inr ((example_coords 1)\<lparr>c_n := 0\<rparr>, m') \<and>
      (\<forall>i < c_cap (example_coords 1). rd_arr m' (c_assigned (example_coords 1)) i = Inr False) \<and>
      (\<exists>c2 m2. local_assignAll (example_env False 16) False ((example_coords 1)\<lparr>c_n := 0\<rparr>) m'
           = Inr (c2, m2) \<and> c_n c2 = c_cap (example_coords 1)))"
proof -
  have h1: "I1 (example_coords 1) example_memory" by (rule ex_I1)
  have h2: "c_stack (example_coords 1) = Some 1 \<and> (1::nat) \<le> 1"
    by (simp add: example_coords_def Coordinates_def)
  from clear_resets [of "example_coords 1" example_memory "example_env False 16"] h1
  obtain m' where 1: "clear (example_env False 16) (example_coords 1) example_memory
           = Inr ((example_coords 1)\<lparr>c_n := 0\<rparr>, m')"
    and 2: "\<forall>i < c_cap (example_coords 1). rd_arr m' (c_assigned (example_coords 1)) i = Inr False"
    and 3: "\<forall>s. c_stack (example_coords 1) = Some s \<and> 1 \<le> s \<longrightarrow>
            (\<exists>c2 m2. local_assignAll (example_env False 16) False ((example_coords 1)\<lparr>c_n := 0\<rparr>) m'
               = Inr (c2, m2) \<and> c_n c2 = c_cap (example_coords 1))"
    by blast
  from 3 h2 have "\<exists>c2 m2. local_assignAll (example_env False 16) False ((example_coords 1)\<lparr>c_n := 0\<rparr>) m'
               = Inr (c2, m2) \<and> c_n c2 = c_cap (example_coords 1)" by blast
  then show ?thesis using h1 h2 1 2 by blast
qed

subsection \<open>Sequences of calls\<close>

lemma presence_n_upd [simp]: "presence (c\<lparr>c_n := k\<rparr>) m i = presence c m i"
  by (simp add: presence_def)








subsection \<open>The layout\<close>

lemma laid_outD:
  assumes "laid_out c m"
  obtains a s where "c_assigned c = Some a" "c_stack c = Some s" "c_buffer c = Some (s + c_cap c)"
    "a + c_cap c \<le> length (arr_mem m)"
    "0 < getTileSize (analytic_model c)" "0 < getNumTiles (analytic_model c)"
    "length (local_buffer c) = getNumTiles (analytic_model c)"
    "\<forall>t < getNumTiles (analytic_model c). local_buffer c ! t = Some (tile_ptr c t)"
    "local_new_nnzs c = Some (nnzs_off c)" "pref_sum c = Some (pref_off c)"
    "pref_off c + getNumTiles (analytic_model c) \<le> length (buf_mem m)"
    "buffer_off c = s + c_cap c"
proof -
  from assms have b: "bound c m" by (simp add: laid_out_def)
  from b obtain a s where p: "c_assigned c = Some a" "c_stack c = Some s"
    and la: "a + c_cap c \<le> length (arr_mem m)"
    by (rule boundD)
  have bo: "c_buffer c = Some (s + c_cap c)" using assms p by (simp add: laid_out_def stack_off_def)
  have lb: "local_buffer c = map (\<lambda>t. Some (tile_ptr c t)) [0..<getNumTiles (analytic_model c)]"
    using assms by (simp add: laid_out_def)
  show thesis
  proof (rule that [OF p bo la])
    show "length (local_buffer c) = getNumTiles (analytic_model c)" by (simp add: lb)
    show "\<forall>t < getNumTiles (analytic_model c). local_buffer c ! t = Some (tile_ptr c t)"
      by (simp add: lb)
    show "buffer_off c = s + c_cap c" using bo by (simp add: buffer_off_def)
  qed (use assms in \<open>simp_all add: laid_out_def\<close>)
qed

text \<open>The regions of the block, in order: the stack, the segments of the tiles, the counters
  and the prefix sums.\<close>

lemma tile_ptr_mono:
  "t < t' \<Longrightarrow> tile_ptr c t + getTileSize (analytic_model c) + 1 \<le> tile_ptr c t'"
proof -
  assume "t < t'"
  then have "Suc t \<le> t'" by simp
  then have "Suc t * (getTileSize (analytic_model c) + 1) \<le> t' * (getTileSize (analytic_model c) + 1)"
    by (rule mult_le_mono1)
  then show ?thesis by (simp add: tile_ptr_def)
qed

lemma tile_ptr_nnzs:
  "t < getNumTiles (analytic_model c) \<Longrightarrow>
    tile_ptr c t + getTileSize (analytic_model c) + 1 \<le> nnzs_off c"
proof -
  assume "t < getNumTiles (analytic_model c)"
  then have "Suc t \<le> getNumTiles (analytic_model c)" by simp
  then have "Suc t * (getTileSize (analytic_model c) + 1)
      \<le> getNumTiles (analytic_model c) * (getTileSize (analytic_model c) + 1)"
    by (rule mult_le_mono1)
  then show ?thesis by (simp add: tile_ptr_def nnzs_off_def)
qed

lemma nnzs_pref: "nnzs_off c + getNumTiles (analytic_model c) = pref_off c"
  by (simp add: nnzs_off_def pref_off_def)

lemma tile_ptr_ge: "buffer_off c \<le> tile_ptr c t"
  by (simp add: tile_ptr_def)

subsection \<open>Zero capacity\<close>

text \<open>
  Claim C8, as stated, fails: \<open>asyncSubset\<close> and \<open>asyncJoinSubset\<close> assert that the
  capacity is positive. On the structure of capacity 0 that the degenerate \<open>set\<close> leaves,
  both fail the assertion where assertions are compiled in, and where they are not, both
  go on to divide by the tile size of the analytic model.
\<close>

theorem zero_capacity_counterexample:
  "c_cap zero_coords = 0 \<and>
   set_c (example_env False 16) zero_coords no_memory None False None 0 True
     = Inr (zero_coords, no_memory) \<and>
   asyncSubset (example_env False 16) zero_coords no_memory 0 0 = Inl AssertFailed \<and>
   asyncJoinSubset (example_env False 16) zero_coords no_memory zero_coords 0 0 = Inl AssertFailed \<and>
   asyncSubset (example_env True 16) zero_coords no_memory 0 0 = Inl DivByZero \<and>
   asyncJoinSubset (example_env True 16) zero_coords no_memory zero_coords 0 0 = Inl DivByZero"
  by (simp add: zero_coords_def Coordinates_def set_c_def asyncSubset_def asyncJoinSubset_def
      assert_c_def example_env_def udiv_def)

text \<open>
  Claim C8, amended. When the capacity is 0, \<open>asyncSubsetInit\<close> and \<open>joinSubset\<close> return
  at once and leave the store as it is, and \<open>newNonZeroes\<close> returns false, for every
  store and every pointer value, so that no buffer is read or written; \<open>asyncSubset\<close> and
  \<open>asyncJoinSubset\<close> require a positive capacity and fail their assertion where
  assertions are compiled in.
\<close>

theorem zero_capacity_noops:
  assumes "c_cap c = 0"
  shows "asyncSubsetInit e c m lower upper = Inr m \<and> joinSubset e c m lower upper = Inr m \<and>
    newNonZeroes e c m = Inr False \<and>
    (\<not> NDEBUG e \<longrightarrow> asyncSubset e c m lower upper = Inl AssertFailed \<and>
       asyncJoinSubset e c m sub lower upper = Inl AssertFailed)"
  using assms
  by (simp add: asyncSubsetInit_def joinSubset_def newNonZeroes_def asyncSubset_def
      asyncJoinSubset_def assert_c_def)

theorem zero_capacity_noops_witness:
  "c_cap zero_coords = 0 \<and> \<not> NDEBUG (example_env False 16) \<and>
   asyncSubsetInit (example_env False 16) zero_coords no_memory 0 0 = Inr no_memory \<and>
   joinSubset (example_env False 16) zero_coords no_memory 0 0 = Inr no_memory \<and>
   newNonZeroes (example_env False 16) zero_coords no_memory = Inr False \<and>
   asyncSubset (example_env False 16) zero_coords no_memory 0 0 = Inl AssertFailed \<and>
   asyncJoinSubset (example_env False 16) zero_coords no_memory zero_coords 0 0 = Inl AssertFailed"
proof -
  have h: "c_cap zero_coords = 0" by (simp add: zero_coords_def Coordinates_def)
  have n: "\<not> NDEBUG (example_env False 16)" by (simp add: example_env_def)
  from zero_capacity_noops [OF h, of "example_env False 16" no_memory 0 0 zero_coords] h n
  show ?thesis by simp
qed

subsection \<open>Commit of a tile\<close>

lemma region_update_outside:
  "j < off \<or> off + len \<le> j \<Longrightarrow> take len (drop off (xs[j := x])) = take len (drop off xs)"
  by (rule nth_equalityI) (auto simp: nth_list_update)




subsection \<open>Initialisation of a tile\<close>

lemma push_local_spec:
  assumes "seg_holds m lb L" and "length L < w" and "lb + 1 + w \<le> length (buf_mem m)"
  shows "\<exists>m'. push_local m (Some lb) (Some (Suc lb)) v = Inr m' \<and>
     arr_mem m' = arr_mem m \<and> length (buf_mem m') = length (buf_mem m) \<and>
     (\<forall>j. j < lb \<or> lb + 1 + w \<le> j \<longrightarrow> buf_mem m' ! j = buf_mem m ! j) \<and>
     seg_holds m' lb (L @ [v])"
proof -
  let ?k = "length L"
  let ?m' = "m\<lparr>buf_mem := (buf_mem m)[lb := ?k + 1, lb + 1 + ?k := v]\<rparr>"
  have k: "buf_mem m ! lb = ?k" and L: "take ?k (drop (lb + 1) (buf_mem m)) = L"
    using assms(1) by (simp_all add: seg_holds_def)
  have 1: "push_local m (Some lb) (Some (Suc lb)) v = Inr ?m'"
    using k assms(2,3) by (simp add: push_local_def rd_buf_def wr_buf_def)
  have "take (Suc ?k) (drop (lb + 1) (buf_mem ?m')) = L @ [v]"
  proof -
    have "take (Suc ?k) (drop (lb + 1) (buf_mem ?m'))
        = take ?k (drop (lb + 1) (buf_mem ?m')) @ [drop (lb + 1) (buf_mem ?m') ! ?k]"
      using assms(2,3) by (simp add: take_Suc_conv_app_nth)
    also have "take ?k (drop (lb + 1) (buf_mem ?m')) = L"
      using L by (simp add: region_update_outside)
    also have "drop (lb + 1) (buf_mem ?m') ! ?k = v" using assms(2,3) by simp
    finally show ?thesis .
  qed
  then have "seg_holds ?m' lb (L @ [v])"
    using assms(2,3) by (simp add: seg_holds_def nth_list_update)
  then show ?thesis using 1 assms(2,3) by (intro exI [of _ ?m']) (simp add: nth_list_update)
qed

lemma scan_range_spec:
  assumes "c_assigned c = Some a" and "a + upper \<le> length (arr_mem m)"
    and "lower \<le> upper" and "upper - lower \<le> w" and "lb + 1 + w \<le> length (buf_mem m)"
    and "buf_mem m ! lb = 0"
  shows "\<exists>m'. scan_range c (Some lb) (Some (Suc lb)) lower upper m = Inr m' \<and>
     arr_mem m' = arr_mem m \<and> length (buf_mem m') = length (buf_mem m) \<and>
     (\<forall>j. j < lb \<or> lb + 1 + w \<le> j \<longrightarrow> buf_mem m' ! j = buf_mem m ! j) \<and>
     seg_holds m' lb (map (\<lambda>i. i - lower) (filter (\<lambda>i. arr_mem m ! (a + i)) [lower..<upper]))"
proof -
  let ?L = "\<lambda>i. map (\<lambda>i. i - lower) (filter (\<lambda>i. arr_mem m ! (a + i)) [lower..<i])"
  let ?P = "\<lambda>(i::nat) (m'::memory). arr_mem m' = arr_mem m \<and>
     length (buf_mem m') = length (buf_mem m) \<and>
     (\<forall>j. j < lb \<or> lb + 1 + w \<le> j \<longrightarrow> buf_mem m' ! j = buf_mem m ! j) \<and>
     seg_holds m' lb (?L i)"
  let ?body = "\<lambda>i m1. bnd (rd_arr m1 (c_assigned c) i) (\<lambda>a.
      if a then push_local m1 (Some lb) (Some (Suc lb)) (i - lower) else Inr m1)"
  have "\<exists>m'. for_loop [lower..<upper] ?body m = Inr m' \<and> ?P upper m'"
  proof (rule for_loop_rule [where P = ?P, OF assms(3)])
    show "?P lower m" using assms(6) by (simp add: seg_holds_def)
  next
    fix i t assume i: "lower \<le> i" "i < upper" and P: "?P i t"
    have rd: "rd_arr t (c_assigned c) i = Inr (arr_mem m ! (a + i))"
      using assms(1,2) i P by (simp add: rd_arr_def)
    show "\<exists>s'. ?body i t = Inr s' \<and> ?P (Suc i) s'"
    proof (cases "arr_mem m ! (a + i)")
      case False
      then show ?thesis using rd P i by simp
    next
      case True
      have "length (filter (\<lambda>i. arr_mem m ! (a + i)) [lower..<i]) \<le> length [lower..<i]"
        by (rule length_filter_le)
      then have len: "length (?L i) < w" using i assms(4) by simp
      have sz: "lb + 1 + w \<le> length (buf_mem t)" using P assms(5) by simp
      from P have sh: "seg_holds t lb (?L i)" by simp
      from push_local_spec [OF sh len sz, of "i - lower"] obtain t' where
        1: "push_local t (Some lb) (Some (Suc lb)) (i - lower) = Inr t'"
        and 2: "arr_mem t' = arr_mem t" "length (buf_mem t') = length (buf_mem t)"
        "\<forall>j. j < lb \<or> lb + 1 + w \<le> j \<longrightarrow> buf_mem t' ! j = buf_mem t ! j"
        and 3: "seg_holds t' lb (?L i @ [i - lower])" by blast
      have "?L (Suc i) = ?L i @ [i - lower]" using True i by simp
      then have "?P (Suc i) t'" using 2 3 P by simp
      then show ?thesis using rd True 1 by simp
    qed
  qed
  then show ?thesis unfolding scan_range_def .
qed

lemma filter_range_length:
  assumes "distinct xs"
  shows "length (filter (\<lambda>k. lower \<le> k \<and> k < upper) xs) \<le> upper - lower"
proof -
  have "distinct (filter (\<lambda>k. lower \<le> k \<and> k < upper) xs)" using assms by simp
  then have "length (filter (\<lambda>k. lower \<le> k \<and> k < upper) xs)
      = card (set (filter (\<lambda>k. lower \<le> k \<and> k < upper) xs))"
    by (rule distinct_card [symmetric])
  also have "\<dots> \<le> card {lower..<upper}"
    by (rule card_mono) auto
  finally show ?thesis by simp
qed

lemma scan_stack_spec:
  assumes "c_assigned c = Some a" and "c_stack c = Some s" and "s + c_n c \<le> lb"
    and "a + c_cap c \<le> length (arr_mem m)"
    and "\<forall>k < c_n c. buf_mem m ! (s + k) < c_cap c \<and> arr_mem m ! (a + buf_mem m ! (s + k))"
    and "distinct (compacted c m)"
    and "upper - lower \<le> w" and "lb + 1 + w \<le> length (buf_mem m)"
    and "buf_mem m ! lb = 0"
  shows "\<exists>m'. scan_stack e c (Some lb) (Some (Suc lb)) lower upper m = Inr m' \<and>
     arr_mem m' = arr_mem m \<and> length (buf_mem m') = length (buf_mem m) \<and>
     (\<forall>j. j < lb \<or> lb + 1 + w \<le> j \<longrightarrow> buf_mem m' ! j = buf_mem m ! j) \<and>
     seg_holds m' lb (map (\<lambda>k. k - lower)
        (filter (\<lambda>k. lower \<le> k \<and> k < upper) (compacted c m)))"
proof -
  let ?S = "compacted c m"
  let ?in = "\<lambda>k. lower \<le> k \<and> k < upper"
  let ?L = "\<lambda>i. map (\<lambda>k. k - lower) (filter ?in (take i ?S))"
  have sn: "s + c_n c \<le> length (buf_mem m)" using assms(3,8) by simp
  have lenS: "length ?S = c_n c" by (rule compacted_length [OF assms(2) sn])
  have nthS: "\<And>k. k < c_n c \<Longrightarrow> ?S ! k = buf_mem m ! (s + k)"
    by (rule compacted_nth [OF assms(2) sn])
  let ?P = "\<lambda>(i::nat) (m'::memory). arr_mem m' = arr_mem m \<and>
     length (buf_mem m') = length (buf_mem m) \<and>
     (\<forall>j. j < lb \<or> lb + 1 + w \<le> j \<longrightarrow> buf_mem m' ! j = buf_mem m ! j) \<and>
     seg_holds m' lb (?L i)"
  let ?body = "\<lambda>i m1. bnd (rd_buf m1 (c_stack c) i) (\<lambda>k.
      if lower \<le> k \<and> k < upper then
        bnd (if NDEBUG e then Inr ()
             else bnd (rd_arr m1 (c_assigned c) k) (\<lambda>a. assert_c e a)) (\<lambda>_.
        push_local m1 (Some lb) (Some (Suc lb)) (k - lower))
      else Inr m1)"
  have "\<exists>m'. for_loop [0..<c_n c] ?body m = Inr m' \<and> ?P (c_n c) m'"
  proof (rule for_loop_rule [where P = ?P])
    show "0 \<le> c_n c" by simp
    show "?P 0 m" using assms(9) by (simp add: seg_holds_def)
  next
    fix i t assume i: "0 \<le> i" "i < c_n c" and P: "?P i t"
    let ?k = "buf_mem m ! (s + i)"
    have "buf_mem t ! (s + i) = ?k" using P i assms(3) by simp
    then have rd: "rd_buf t (c_stack c) i = Inr ?k"
      using assms(2,3) sn i P by (simp add: rd_buf_def)
    have tk: "take (Suc i) ?S = take i ?S @ [?k]"
      using i lenS nthS by (simp add: take_Suc_conv_app_nth)
    show "\<exists>s'. ?body i t = Inr s' \<and> ?P (Suc i) s'"
    proof (cases "?in ?k")
      case False
      then have Ls: "?L (Suc i) = ?L i" using tk by simp
      have "?body i t = Inr t" unfolding rd bnd_Inr by (simp only: False if_False)
      moreover have "?P (Suc i) t" using P Ls by simp
      ultimately show ?thesis by blast
    next
      case True
      have Ls: "?L (Suc i) = ?L i @ [?k - lower]" using True tk by simp
      have "distinct (take (Suc i) ?S)" using assms(6) by (rule distinct_take)
      then have "length (filter ?in (take (Suc i) ?S)) \<le> upper - lower"
        by (rule filter_range_length)
      then have "length (?L (Suc i)) \<le> w" using assms(7) by simp
      then have len: "length (?L i) < w" using Ls by simp
      have sz: "lb + 1 + w \<le> length (buf_mem t)" using P assms(8) by simp
      from P have sh: "seg_holds t lb (?L i)" by simp
      have fl: "?k < c_cap c" "arr_mem m ! (a + ?k)" using assms(5) i by simp_all
      have chk: "(if NDEBUG e then Inr ()
             else bnd (rd_arr t (c_assigned c) ?k) (\<lambda>a. assert_c e a)) = Inr ()"
        using fl assms(1,4) P by (simp add: rd_arr_def)
      from push_local_spec [OF sh len sz, of "?k - lower"] obtain t' where
        1: "push_local t (Some lb) (Some (Suc lb)) (?k - lower) = Inr t'"
        and 2: "arr_mem t' = arr_mem t" "length (buf_mem t') = length (buf_mem t)"
        "\<forall>j. j < lb \<or> lb + 1 + w \<le> j \<longrightarrow> buf_mem t' ! j = buf_mem t ! j"
        and 3: "seg_holds t' lb (?L i @ [?k - lower])" by blast
      have "?P (Suc i) t'" using 2 3 P Ls by simp
      moreover have "?body i t = Inr t'" unfolding rd bnd_Inr using True 1 by (simp add: chk)
      ultimately show ?thesis by blast
    qed
  qed
  then have "\<exists>m'. for_loop [0..<c_n c] ?body m = Inr m' \<and> ?P (length ?S) m'"
    using lenS by simp
  then show ?thesis unfolding scan_stack_def by simp
qed

lemma range_offsets:
  "set (map (\<lambda>i. i - lower) (filter P [lower..<upper]))
     = {i - lower | i. lower \<le> i \<and> i < upper \<and> P i}"
  by auto

lemma range_offsets_distinct: "distinct (map (\<lambda>i. i - lower) (filter P [lower..<upper]))"
  by (rule distinct_map_filter) (auto simp: distinct_map inj_on_def)

lemma stack_offsets_distinct:
  "distinct xs \<Longrightarrow>
    distinct (map (\<lambda>k. k - lower) (filter (\<lambda>k. lower \<le> k \<and> (k::nat) < upper) xs))"
  by (auto simp: distinct_map inj_on_def)

lemma scans_spec:
  assumes "laid_out c m" and "I1 c m"
    and "lower \<le> upper" and "upper \<le> c_cap c"
    and "upper - lower \<le> getTileSize (analytic_model c)"
    and "t < getNumTiles (analytic_model c)"
    and "m1 = m\<lparr>buf_mem := (buf_mem m)[tile_ptr c t := 0]\<rparr>"
    and "Q = (\<lambda>m2 L. arr_mem m2 = arr_mem m \<and> length (buf_mem m2) = length (buf_mem m) \<and>
     (\<forall>j. j < tile_ptr c t \<or> tile_ptr c t + 1 + getTileSize (analytic_model c) \<le> j
        \<longrightarrow> buf_mem m2 ! j = buf_mem m ! j) \<and>
     seg_holds m2 (tile_ptr c t) L \<and> distinct L \<and>
     set L = {i - lower | i. lower \<le> i \<and> i < upper \<and> presence c m i})"
  shows "(\<exists>m2 L. scan_range c (Some (tile_ptr c t)) (Some (Suc (tile_ptr c t))) lower upper m1
            = Inr m2 \<and> Q m2 L) \<and>
         (\<exists>m2 L. scan_stack e c (Some (tile_ptr c t)) (Some (Suc (tile_ptr c t))) lower upper m1
            = Inr m2 \<and> Q m2 L)"
proof
  let ?ts = "getTileSize (analytic_model c)" and ?N = "getNumTiles (analytic_model c)"
  let ?lb = "tile_ptr c t"
  from assms(1) obtain a s where p: "c_assigned c = Some a" "c_stack c = Some s"
    and cb: "c_buffer c = Some (s + c_cap c)" and la: "a + c_cap c \<le> length (arr_mem m)"
    and ts: "0 < ?ts" and N: "0 < ?N" and len: "length (local_buffer c) = ?N"
    and lb: "\<forall>t < ?N. local_buffer c ! t = Some (tile_ptr c t)"
    and nn: "local_new_nnzs c = Some (nnzs_off c)" and ps: "pref_sum c = Some (pref_off c)"
    and sz: "pref_off c + ?N \<le> length (buf_mem m)"
    and bo: "buffer_off c = s + c_cap c"
    by (rule laid_outD)
  from assms(2) obtain a' s' where p': "c_assigned c = Some a'" "c_stack c = Some s'"
    and n: "c_n c \<le> c_cap c" and d: "distinct (compacted c m)"
    and st: "\<forall>k < c_n c. buf_mem m ! (s' + k) < c_cap c \<and> arr_mem m ! (a' + buf_mem m ! (s' + k))"
    and fl: "\<forall>i < c_cap c. arr_mem m ! (a' + i) \<longrightarrow> (\<exists>k < c_n c. buf_mem m ! (s' + k) = i)"
    by (rule I1_D)
  have eq: "a' = a" "s' = s" using p p' by simp_all
  have r1: "?lb + ?ts + 1 \<le> nnzs_off c" using assms(6) by (rule tile_ptr_nnzs)
  have r2: "nnzs_off c + ?N = pref_off c" by (rule nnzs_pref)
  have r3: "s + c_cap c \<le> ?lb" using tile_ptr_ge [of c t] bo by simp
  have lbl: "?lb + 1 + ?ts \<le> length (buf_mem m)" using r1 r2 sz by simp
  have pr: "\<And>i. i < c_cap c \<Longrightarrow> presence c m i = arr_mem m ! (a + i)"
    using presence_bound [OF p(1)] la by simp
  have c1: "compacted c m1 = compacted c m"
    using p(2) r3 n by (simp add: assms(7) compacted_def stack_at_def region_update_outside)
  have am: "arr_mem m1 = arr_mem m" and bl: "length (buf_mem m1) = length (buf_mem m)"
    and b1: "\<And>j. j \<noteq> ?lb \<Longrightarrow> buf_mem m1 ! j = buf_mem m ! j" and b0: "buf_mem m1 ! ?lb = 0"
    using lbl by (simp_all add: assms(7))
  {
    let ?L = "map (\<lambda>i. i - lower) (filter (\<lambda>i. arr_mem m1 ! (a + i)) [lower..<upper])"
    have "\<exists>m'. scan_range c (Some ?lb) (Some (Suc ?lb)) lower upper m1 = Inr m' \<and>
       arr_mem m' = arr_mem m1 \<and> length (buf_mem m') = length (buf_mem m1) \<and>
       (\<forall>j. j < ?lb \<or> ?lb + 1 + ?ts \<le> j \<longrightarrow> buf_mem m' ! j = buf_mem m1 ! j) \<and>
       seg_holds m' ?lb ?L"
      by (rule scan_range_spec [OF p(1) _ assms(3,5)]) (use la assms(4) lbl am bl b0 in simp_all)
    then obtain m2 where 1: "scan_range c (Some ?lb) (Some (Suc ?lb)) lower upper m1 = Inr m2"
      and 2: "arr_mem m2 = arr_mem m" "length (buf_mem m2) = length (buf_mem m)"
      and 3: "\<forall>j. j < ?lb \<or> ?lb + 1 + ?ts \<le> j \<longrightarrow> buf_mem m2 ! j = buf_mem m1 ! j"
      and 4: "seg_holds m2 ?lb ?L" using am bl by auto
    have 5: "\<forall>j. j < ?lb \<or> ?lb + 1 + ?ts \<le> j \<longrightarrow> buf_mem m2 ! j = buf_mem m ! j"
      using 3 b1 by auto
    have "set ?L = {i - lower | i. lower \<le> i \<and> i < upper \<and> arr_mem m ! (a + i)}"
      by (simp only: range_offsets am)
    also have "\<dots> = {i - lower | i. lower \<le> i \<and> i < upper \<and> presence c m i}"
      using pr assms(4) by (metis (no_types, lifting) less_le_trans)
    finally have 6: "set ?L = {i - lower | i. lower \<le> i \<and> i < upper \<and> presence c m i}" .
    have 7: "distinct ?L" by (rule range_offsets_distinct)
    have "Q m2 ?L" using 2 5 4 6 7 by (simp add: assms(8))
    then show "\<exists>m2 L. scan_range c (Some ?lb) (Some (Suc ?lb)) lower upper m1 = Inr m2 \<and> Q m2 L"
      using 1 by blast
  }
  {
    let ?L = "map (\<lambda>k. k - lower) (filter (\<lambda>k. lower \<le> k \<and> k < upper) (compacted c m1))"
    have "\<exists>m'. scan_stack e c (Some ?lb) (Some (Suc ?lb)) lower upper m1 = Inr m' \<and>
       arr_mem m' = arr_mem m1 \<and> length (buf_mem m') = length (buf_mem m1) \<and>
       (\<forall>j. j < ?lb \<or> ?lb + 1 + ?ts \<le> j \<longrightarrow> buf_mem m' ! j = buf_mem m1 ! j) \<and>
       seg_holds m' ?lb ?L"
    proof (rule scan_stack_spec [OF p])
      show "s + c_n c \<le> ?lb" using r3 n by simp
      show "a + c_cap c \<le> length (arr_mem m1)" using la am by simp
      show "\<forall>k < c_n c. buf_mem m1 ! (s + k) < c_cap c \<and>
          arr_mem m1 ! (a + buf_mem m1 ! (s + k))"
        using st eq r3 n b1 am by simp
      show "distinct (compacted c m1)" using d c1 by simp
      show "upper - lower \<le> ?ts" by (rule assms(5))
      show "?lb + 1 + ?ts \<le> length (buf_mem m1)" using lbl bl by simp
      show "buf_mem m1 ! ?lb = 0" by (rule b0)
    qed
    then obtain m2 where 1: "scan_stack e c (Some ?lb) (Some (Suc ?lb)) lower upper m1 = Inr m2"
      and 2: "arr_mem m2 = arr_mem m" "length (buf_mem m2) = length (buf_mem m)"
      and 3: "\<forall>j. j < ?lb \<or> ?lb + 1 + ?ts \<le> j \<longrightarrow> buf_mem m2 ! j = buf_mem m1 ! j"
      and 4: "seg_holds m2 ?lb ?L" using am bl by auto
    have 5: "\<forall>j. j < ?lb \<or> ?lb + 1 + ?ts \<le> j \<longrightarrow> buf_mem m2 ! j = buf_mem m ! j"
      using 3 b1 by auto
    have cs: "set (compacted c m) = {i. i < c_cap c \<and> presence c m i}"
      using assms(2) by (simp add: I1_def presence_set)
    have "set ?L = (\<lambda>k. k - lower) ` {k \<in> set (compacted c m). lower \<le> k \<and> k < upper}"
      by (simp add: c1)
    also have "\<dots> = {i - lower | i. lower \<le> i \<and> i < upper \<and> presence c m i}"
      using cs assms(4) by auto
    finally have 6: "set ?L = {i - lower | i. lower \<le> i \<and> i < upper \<and> presence c m i}" .
    have 7: "distinct ?L" using d c1 by (simp add: stack_offsets_distinct)
    have "Q m2 ?L" using 2 5 4 6 7 by (simp add: assms(8))
    then show "\<exists>m2 L. scan_stack e c (Some ?lb) (Some (Suc ?lb)) lower upper m1 = Inr m2 \<and> Q m2 L"
      using 1 by blast
  }
qed

lemma asyncSubsetInit_spec:
  assumes "laid_out c m" and "I1 c m" and "0 < c_cap c"
    and "lower \<le> upper" and "upper \<le> c_cap c"
    and "upper - lower \<le> getTileSize (analytic_model c)"
    and "t = lower div getTileSize (analytic_model c)"
    and "t < getNumTiles (analytic_model c)"
  shows "\<exists>m' L. asyncSubsetInit e c m lower upper = Inr m' \<and>
     arr_mem m' = arr_mem m \<and> length (buf_mem m') = length (buf_mem m) \<and>
     (\<forall>j. (j < tile_ptr c t \<or> tile_ptr c t + 1 + getTileSize (analytic_model c) \<le> j) \<and>
          j \<noteq> nnzs_off c + t \<longrightarrow> buf_mem m' ! j = buf_mem m ! j) \<and>
     seg_holds m' (tile_ptr c t) L \<and> distinct L \<and>
     set L = {i - lower | i. lower \<le> i \<and> i < upper \<and> presence c m i} \<and>
     new_nnzs_at c m' t = 0"
proof -
  let ?ts = "getTileSize (analytic_model c)" and ?N = "getNumTiles (analytic_model c)"
  let ?lb = "tile_ptr c t"
  from assms(1) obtain a s where p: "c_assigned c = Some a" "c_stack c = Some s"
    and cb: "c_buffer c = Some (s + c_cap c)" and la: "a + c_cap c \<le> length (arr_mem m)"
    and ts: "0 < ?ts" and N: "0 < ?N" and len: "length (local_buffer c) = ?N"
    and lb: "\<forall>t < ?N. local_buffer c ! t = Some (tile_ptr c t)"
    and nn: "local_new_nnzs c = Some (nnzs_off c)" and ps: "pref_sum c = Some (pref_off c)"
    and sz: "pref_off c + ?N \<le> length (buf_mem m)"
    and bo: "buffer_off c = s + c_cap c"
    by (rule laid_outD)
  have r1: "?lb + ?ts + 1 \<le> nnzs_off c" using assms(8) by (rule tile_ptr_nnzs)
  have r2: "nnzs_off c + ?N = pref_off c" by (rule nnzs_pref)
  have lbl: "?lb + 1 + ?ts \<le> length (buf_mem m)" using r1 r2 sz by simp
  define m1 where "m1 = m\<lparr>buf_mem := (buf_mem m)[?lb := 0]\<rparr>"
  define Q where "Q = (\<lambda>m2 L. arr_mem m2 = arr_mem m \<and> length (buf_mem m2) = length (buf_mem m) \<and>
     (\<forall>j. j < tile_ptr c t \<or> tile_ptr c t + 1 + getTileSize (analytic_model c) \<le> j
        \<longrightarrow> buf_mem m2 ! j = buf_mem m ! j) \<and>
     seg_holds m2 (tile_ptr c t) L \<and> distinct L \<and>
     set L = {i - lower | i. lower \<le> i \<and> i < upper \<and> presence c m i})"
  from scans_spec [OF assms(1,2,4,5,6,8) m1_def Q_def, of e]
  have "\<exists>m2 L. (if upper - lower < c_n c
            then scan_range c (Some ?lb) (Some (Suc ?lb)) lower upper m1
            else scan_stack e c (Some ?lb) (Some (Suc ?lb)) lower upper m1) = Inr m2 \<and> Q m2 L"
    by (cases "upper - lower < c_n c") simp_all
  then obtain m2 L where
    1: "(if upper - lower < c_n c
            then scan_range c (Some ?lb) (Some (Suc ?lb)) lower upper m1
            else scan_stack e c (Some ?lb) (Some (Suc ?lb)) lower upper m1) = Inr m2"
    and 2: "arr_mem m2 = arr_mem m" "length (buf_mem m2) = length (buf_mem m)"
    and 3: "\<forall>j. j < ?lb \<or> ?lb + 1 + ?ts \<le> j \<longrightarrow> buf_mem m2 ! j = buf_mem m ! j"
    and 4: "seg_holds m2 ?lb L" and 5: "distinct L"
    and 6: "set L = {i - lower | i. lower \<le> i \<and> i < upper \<and> presence c m i}"
    unfolding Q_def by blast
  let ?m3 = "m2\<lparr>buf_mem := (buf_mem m2)[nnzs_off c + t := 0]\<rparr>"
  have nl: "nnzs_off c + t < length (buf_mem m)" using r2 sz assms(8) by simp
  have w0: "wr_buf m (Some ?lb) 0 0 = Inr m1" using lbl by (simp add: wr_buf_def m1_def)
  have w3: "wr_buf m2 (Some (nnzs_off c)) t 0 = Inr ?m3" using nl 2 by (simp add: wr_buf_def)
  have run: "asyncSubsetInit e c m lower upper = Inr ?m3"
    using assms(3,4,8) assms(7) [symmetric] ts len lb nn 1
    by (simp add: asyncSubsetInit_def udiv_def vec_at_def ptr_add_def usub_def w0 w3)
  have "set L \<subseteq> {0..<upper - lower}" using 6 by auto
  then have "card (set L) \<le> card {0..<upper - lower}" by (intro card_mono) simp_all
  then have lL: "length L \<le> ?ts" using 5 assms(6) by (simp add: distinct_card)
  have sh: "seg_holds ?m3 ?lb L"
    using 4 lL r1 by (simp add: seg_holds_def region_update_outside)
  have fr: "\<forall>j. (j < ?lb \<or> ?lb + 1 + ?ts \<le> j) \<and> j \<noteq> nnzs_off c + t
      \<longrightarrow> buf_mem ?m3 ! j = buf_mem m ! j"
    using 3 by auto
  have z: "new_nnzs_at c ?m3 t = 0" using nl 2 by (simp add: new_nnzs_at_def)
  show ?thesis using run 2 fr sh 5 6 z
    by (intro exI [of _ ?m3] exI [of _ L]) simp
qed

lemma seg_holds_obs:
  "seg_holds m (tile_ptr c t) L \<Longrightarrow>
    local_nnzs_at c m t = length L \<and> local_stack_at c m t (local_nnzs_at c m t) = L"
  by (simp add: seg_holds_def local_nnzs_at_def local_stack_at_def)

text \<open>
  Claim C5. On a structure that satisfies invariant I1 and whose local coordinates are laid
  out, for a tile \<open>[lower, upper)\<close> inside the capacity, no wider than the tile size and
  with tile number \<open>lower div tile_size\<close> below the number of tiles,
  \<open>asyncSubsetInit\<close> returns and leaves in the tile's local stack, without duplicates,
  exactly the offsets \<open>i - lower\<close> of the indices \<open>i\<close> of the tile whose flag is set,
  and the tile's counter of new nonzeroes at 0; the flags are as before. Both scans, run
  after the reset of the tile's count, return and leave local stacks with the same set of
  entries.
\<close>

theorem asyncSubsetInit_offsets:
  assumes "laid_out c m" and "I1 c m" and "0 < c_cap c"
    and "lower \<le> upper" and "upper \<le> c_cap c"
    and "upper - lower \<le> getTileSize (analytic_model c)"
    and "t = lower div getTileSize (analytic_model c)"
    and "t < getNumTiles (analytic_model c)"
  shows "(\<exists>m'. asyncSubsetInit e c m lower upper = Inr m' \<and>
      set (local_stack_at c m' t (local_nnzs_at c m' t))
        = {i - lower | i. lower \<le> i \<and> i < upper \<and> presence c m i} \<and>
      distinct (local_stack_at c m' t (local_nnzs_at c m' t)) \<and>
      new_nnzs_at c m' t = 0 \<and> arr_mem m' = arr_mem m) \<and>
    (\<exists>m1 m2.
      scan_range c (Some (tile_ptr c t)) (Some (Suc (tile_ptr c t))) lower upper
        (m\<lparr>buf_mem := (buf_mem m)[tile_ptr c t := 0]\<rparr>) = Inr m1 \<and>
      scan_stack e c (Some (tile_ptr c t)) (Some (Suc (tile_ptr c t))) lower upper
        (m\<lparr>buf_mem := (buf_mem m)[tile_ptr c t := 0]\<rparr>) = Inr m2 \<and>
      set (local_stack_at c m1 t (local_nnzs_at c m1 t))
        = set (local_stack_at c m2 t (local_nnzs_at c m2 t)))"
proof
  from asyncSubsetInit_spec [OF assms, of e] obtain m' L where
    1: "asyncSubsetInit e c m lower upper = Inr m'" and 2: "arr_mem m' = arr_mem m"
    and 3: "seg_holds m' (tile_ptr c t) L" and 4: "distinct L"
    and 5: "set L = {i - lower | i. lower \<le> i \<and> i < upper \<and> presence c m i}"
    and 6: "new_nnzs_at c m' t = 0" by blast
  from seg_holds_obs [OF 3] have o: "local_stack_at c m' t (local_nnzs_at c m' t) = L"
    by (rule conjunct2)
  show "\<exists>m'. asyncSubsetInit e c m lower upper = Inr m' \<and>
      set (local_stack_at c m' t (local_nnzs_at c m' t))
        = {i - lower | i. lower \<le> i \<and> i < upper \<and> presence c m i} \<and>
      distinct (local_stack_at c m' t (local_nnzs_at c m' t)) \<and>
      new_nnzs_at c m' t = 0 \<and> arr_mem m' = arr_mem m"
  proof (intro exI [of _ m'] conjI)
    show "asyncSubsetInit e c m lower upper = Inr m'" by (rule 1)
    show "set (local_stack_at c m' t (local_nnzs_at c m' t))
        = {i - lower | i. lower \<le> i \<and> i < upper \<and> presence c m i}"
      unfolding o by (rule 5)
    show "distinct (local_stack_at c m' t (local_nnzs_at c m' t))" unfolding o by (rule 4)
    show "new_nnzs_at c m' t = 0" by (rule 6)
    show "arr_mem m' = arr_mem m" by (rule 2)
  qed
next
  define m0 where "m0 = m\<lparr>buf_mem := (buf_mem m)[tile_ptr c t := 0]\<rparr>"
  define Q where "Q = (\<lambda>m2 L. arr_mem m2 = arr_mem m \<and> length (buf_mem m2) = length (buf_mem m) \<and>
     (\<forall>j. j < tile_ptr c t \<or> tile_ptr c t + 1 + getTileSize (analytic_model c) \<le> j
        \<longrightarrow> buf_mem m2 ! j = buf_mem m ! j) \<and>
     seg_holds m2 (tile_ptr c t) L \<and> distinct L \<and>
     set L = {i - lower | i. lower \<le> i \<and> i < upper \<and> presence c m i})"
  from scans_spec [OF assms(1,2,4,5,6,8) m0_def Q_def, of e] obtain m1 L1 m2 L2 where
    1: "scan_range c (Some (tile_ptr c t)) (Some (Suc (tile_ptr c t))) lower upper m0 = Inr m1"
    and 2: "Q m1 L1"
    and 3: "scan_stack e c (Some (tile_ptr c t)) (Some (Suc (tile_ptr c t))) lower upper m0 = Inr m2"
    and 4: "Q m2 L2" by blast
  from 2 have s1: "seg_holds m1 (tile_ptr c t) L1"
    and e1: "set L1 = {i - lower | i. lower \<le> i \<and> i < upper \<and> presence c m i}"
    unfolding Q_def by blast+
  from 4 have s2: "seg_holds m2 (tile_ptr c t) L2"
    and e2: "set L2 = {i - lower | i. lower \<le> i \<and> i < upper \<and> presence c m i}"
    unfolding Q_def by blast+
  from seg_holds_obs [OF s1] have o1: "local_stack_at c m1 t (local_nnzs_at c m1 t) = L1"
    by (rule conjunct2)
  from seg_holds_obs [OF s2] have o2: "local_stack_at c m2 t (local_nnzs_at c m2 t) = L2"
    by (rule conjunct2)
  have eq: "set L1 = set L2" unfolding e1 e2 by (rule refl)
  show "\<exists>m1 m2.
      scan_range c (Some (tile_ptr c t)) (Some (Suc (tile_ptr c t))) lower upper
        (m\<lparr>buf_mem := (buf_mem m)[tile_ptr c t := 0]\<rparr>) = Inr m1 \<and>
      scan_stack e c (Some (tile_ptr c t)) (Some (Suc (tile_ptr c t))) lower upper
        (m\<lparr>buf_mem := (buf_mem m)[tile_ptr c t := 0]\<rparr>) = Inr m2 \<and>
      set (local_stack_at c m1 t (local_nnzs_at c m1 t))
        = set (local_stack_at c m2 t (local_nnzs_at c m2 t))"
  proof (rule exI [of _ m1], rule exI [of _ m2], intro conjI)
    show "scan_range c (Some (tile_ptr c t)) (Some (Suc (tile_ptr c t))) lower upper
        (m\<lparr>buf_mem := (buf_mem m)[tile_ptr c t := 0]\<rparr>) = Inr m1"
      by (rule 1 [unfolded m0_def])
    show "scan_stack e c (Some (tile_ptr c t)) (Some (Suc (tile_ptr c t))) lower upper
        (m\<lparr>buf_mem := (buf_mem m)[tile_ptr c t := 0]\<rparr>) = Inr m2"
      by (rule 3 [unfolded m0_def])
    show "set (local_stack_at c m1 t (local_nnzs_at c m1 t))
        = set (local_stack_at c m2 t (local_nnzs_at c m2 t))"
      unfolding o1 o2 by (rule eq)
  qed
qed

lemma present_laid_out: "laid_out present_coords present_memory"
  by code_simp

lemma present_I1: "I1 present_coords present_memory"
  by code_simp

theorem asyncSubsetInit_offsets_witness:
  "laid_out present_coords present_memory \<and> I1 present_coords present_memory \<and>
   0 < c_cap present_coords \<and> (6::nat) \<le> 8 \<and> 8 \<le> c_cap present_coords \<and>
   8 - 6 \<le> getTileSize (analytic_model present_coords) \<and>
   3 = 6 div getTileSize (analytic_model present_coords) \<and>
   3 < getNumTiles (analytic_model present_coords) \<and>
   (\<exists>m'. asyncSubsetInit (example_env False 16) present_coords present_memory 6 8 = Inr m' \<and>
      set (local_stack_at present_coords m' 3 (local_nnzs_at present_coords m' 3))
        = {i - 6 | i. 6 \<le> i \<and> i < 8 \<and> presence present_coords present_memory i} \<and>
      distinct (local_stack_at present_coords m' 3 (local_nnzs_at present_coords m' 3)) \<and>
      new_nnzs_at present_coords m' 3 = 0 \<and> arr_mem m' = arr_mem present_memory)"
proof -
  have h3: "0 < c_cap present_coords"
    by (simp add: present_coords_def scenario_coords_def scenario_bound_def)
  have h4: "(6::nat) \<le> 8" by simp
  have h5: "8 \<le> c_cap present_coords"
    by (simp add: present_coords_def scenario_coords_def scenario_bound_def)
  have h6: "8 - 6 \<le> getTileSize (analytic_model present_coords)"
    by (simp add: present_coords_def scenario_coords_def scenario_model_def)
  have h7: "3 = 6 div getTileSize (analytic_model present_coords)"
    by (simp add: present_coords_def scenario_coords_def scenario_model_def)
  have h8: "3 < getNumTiles (analytic_model present_coords)"
    by (simp add: present_coords_def scenario_coords_def scenario_model_def)
  from asyncSubsetInit_offsets [OF present_laid_out present_I1 h3 h4 h5 h6 h7 h8,
      of "example_env False 16"]
  have "\<exists>m'. asyncSubsetInit (example_env False 16) present_coords present_memory 6 8 = Inr m' \<and>
      set (local_stack_at present_coords m' 3 (local_nnzs_at present_coords m' 3))
        = {i - 6 | i. 6 \<le> i \<and> i < 8 \<and> presence present_coords present_memory i} \<and>
      distinct (local_stack_at present_coords m' 3 (local_nnzs_at present_coords m' 3)) \<and>
      new_nnzs_at present_coords m' 3 = 0 \<and> arr_mem m' = arr_mem present_memory"
    by (rule conjunct1)
  then show ?thesis using present_laid_out present_I1 h3 h5 h6 h7 h8 by simp
qed

subsection \<open>Prefix sums\<close>































end
